theory Spec2Isabelle
  imports Complex_Main
begin

section \<open>Python values and exceptions\<close>

text \<open>
  The program is a single Python module of network definitions on top of a tensor
  library. Every exception the module or the library can raise on the paths studied here
  is a value of \<open>error\<close>; a computation that may raise returns \<open>error + 'a\<close>
  with \<open>Inl\<close> for the exception.
\<close>

datatype error =
    ZeroDivisionError
  | OverflowError
  | ValueError
  | UnboundLocalError string
  | NameError string
  | AttributeError string
  | TypeError
  | IndexError
  | RuntimeError
  | NotImplementedError

definition rbind :: "error + 'a \<Rightarrow> ('a \<Rightarrow> error + 'b) \<Rightarrow> error + 'b" where
  "rbind m f = (case m of Inl e \<Rightarrow> Inl e | Inr v \<Rightarrow> f v)"

fun rmap :: "('a \<Rightarrow> error + 'b) \<Rightarrow> 'a list \<Rightarrow> error + 'b list" where
  "rmap f [] = Inr []"
| "rmap f (x # xs) = rbind (f x) (\<lambda>v. rbind (rmap f xs) (\<lambda>vs. Inr (v # vs)))"

definition py_floordiv :: "int \<Rightarrow> int \<Rightarrow> error + int" where
  "py_floordiv a b = (if b = 0 then Inl ZeroDivisionError else Inr (a div b))"

function ilog2 :: "int \<Rightarrow> int" where
  "ilog2 n = (if n < 2 then 0 else 1 + ilog2 (n div 2))"
  by pat_completeness auto
termination
  by (relation "measure nat") auto

declare ilog2.simps [simp del]

text \<open>
  \<open>int(np.log2(n))\<close>: the logarithm of a positive integer truncated towards zero.
  \<open>np.log2\<close> of zero is minus infinity and of a negative number is NaN; \<open>int\<close> raises
  on both. The library computes the logarithm in double precision, the model takes the
  exact floor. The two agree while the logarithm of \<open>n\<close> is further from the next integer
  than the rounding of a double, which holds for every \<open>n\<close> up to \<open>2 ^ 14\<close> (the sizes
  for which \<open>2 ** 14 // img_size\<close> leaves a channel) and fails for \<open>n\<close> just below a
  large power of two: at \<open>n = 2 ^ 49 - 1\<close> the library gives 49 and the floor is 48. The
  library's value is never below the floor. A statement below that depends on the exact
  number of stages of a network bounds \<open>img_size\<close> by \<open>2 ^ 14\<close>.
\<close>

definition int_np_log2 :: "int \<Rightarrow> error + int" where
  "int_np_log2 n =
     (if n = 0 then Inl OverflowError
      else if n < 0 then Inl ValueError
      else Inr (ilog2 n))"

section \<open>Layers of the tensor library\<close>

text \<open>
  A layer object is described by the hyper-parameters its constructor received. A
  constructor that allocates a parameter tensor raises \<open>RuntimeError\<close> when a dimension
  of that tensor is negative. The values of the parameters are not part of the
  description: they are kept apart, in \<open>kernels\<close> below, under the path of attribute
  names and container indices that leads to the layer, so that two layers with the same
  hyper-parameters have parameters of their own.
\<close>

record conv2d =
  in_channels :: int
  out_channels :: int
  kernel_size :: int
  stride :: int
  padding :: int
  bias :: bool

record linear =
  in_features :: int
  out_features :: int

record instance_norm2d =
  num_features :: int
  affine :: bool

datatype activation = LeakyReLU real | ReLU

definition Conv2d :: "int \<Rightarrow> int \<Rightarrow> int \<Rightarrow> int \<Rightarrow> int \<Rightarrow> bool \<Rightarrow> error + conv2d" where
  "Conv2d c_in c_out k s p b =
     (if c_in < 0 \<or> c_out < 0 then Inl RuntimeError
      else Inr \<lparr>in_channels = c_in, out_channels = c_out, kernel_size = k,
                stride = s, padding = p, bias = b\<rparr>)"

definition Linear :: "int \<Rightarrow> int \<Rightarrow> error + linear" where
  "Linear f_in f_out =
     (if f_in < 0 \<or> f_out < 0 then Inl RuntimeError
      else Inr \<lparr>in_features = f_in, out_features = f_out\<rparr>)"

definition InstanceNorm2d :: "int \<Rightarrow> bool \<Rightarrow> error + instance_norm2d" where
  "InstanceNorm2d n a =
     (if a \<and> n < 0 then Inl RuntimeError
      else Inr \<lparr>num_features = n, affine = a\<rparr>)"

section \<open>Blocks: constructors\<close>

record adaptive_instance_norm =
  ain_norm :: instance_norm2d
  ain_fc :: linear

definition AdaptiveInstanceNorm_init :: "int \<Rightarrow> int \<Rightarrow> error + adaptive_instance_norm" where
  "AdaptiveInstanceNorm_init style_dim n_features =
     rbind (InstanceNorm2d n_features False) (\<lambda>norm.
     rbind (Linear style_dim (n_features * 2)) (\<lambda>fc.
     Inr \<lparr>ain_norm = norm, ain_fc = fc\<rparr>))"

text \<open>
  An attribute that \<open>__init__\<close> sets only under a flag (\<open>conv_1x1\<close>, \<open>norm_1\<close>,
  \<open>norm_2\<close>) is an option: \<open>None\<close> is the attribute missing from the object.
\<close>

record adaresblock =
  ab_activ :: activation
  ab_upsample :: bool
  ab_shortcut :: bool
  ab_conv_1 :: conv2d
  ab_conv_2 :: conv2d
  ab_norm_1 :: adaptive_instance_norm
  ab_norm_2 :: adaptive_instance_norm
  ab_conv_1x1 :: "conv2d option"

definition AdaResBlock_init ::
  "int \<Rightarrow> int \<Rightarrow> int \<Rightarrow> activation \<Rightarrow> bool \<Rightarrow> error + adaresblock" where
  "AdaResBlock_init dim_in dim_out style_dim activ upsample =
     rbind (Conv2d dim_in dim_out 3 1 1 True) (\<lambda>c1.
     rbind (Conv2d dim_out dim_out 3 1 1 True) (\<lambda>c2.
     rbind (AdaptiveInstanceNorm_init style_dim dim_in) (\<lambda>n1.
     rbind (AdaptiveInstanceNorm_init style_dim dim_out) (\<lambda>n2.
     rbind (if dim_in \<noteq> dim_out
            then rbind (Conv2d dim_in dim_out 1 1 0 False) (\<lambda>c. Inr (Some c))
            else Inr None) (\<lambda>c11.
     Inr \<lparr>ab_activ = activ, ab_upsample = upsample, ab_shortcut = (dim_in \<noteq> dim_out),
          ab_conv_1 = c1, ab_conv_2 = c2, ab_norm_1 = n1, ab_norm_2 = n2,
          ab_conv_1x1 = c11\<rparr>)))))"

record resblock =
  rb_activ :: activation
  rb_downsample :: bool
  rb_shortcut :: bool
  rb_normalize :: bool
  rb_conv_1 :: conv2d
  rb_conv_2 :: conv2d
  rb_norm_1 :: "instance_norm2d option"
  rb_norm_2 :: "instance_norm2d option"
  rb_conv_1x1 :: "conv2d option"

definition ResBlock_init ::
  "int \<Rightarrow> int \<Rightarrow> int \<Rightarrow> activation \<Rightarrow> bool \<Rightarrow> bool \<Rightarrow> error + resblock" where
  "ResBlock_init dim_in dim_out style_dim activ downsample normalise =
     rbind (Conv2d dim_in dim_in 3 1 1 True) (\<lambda>c1.
     rbind (Conv2d dim_in dim_out 3 1 1 True) (\<lambda>c2.
     rbind (if normalise
            then rbind (InstanceNorm2d dim_in True) (\<lambda>n. Inr (Some n))
            else Inr None) (\<lambda>n1.
     rbind (if normalise
            then rbind (InstanceNorm2d dim_in True) (\<lambda>n. Inr (Some n))
            else Inr None) (\<lambda>n2.
     rbind (if dim_in \<noteq> dim_out
            then rbind (Conv2d dim_in dim_out 1 1 0 False) (\<lambda>c. Inr (Some c))
            else Inr None) (\<lambda>c11.
     Inr \<lparr>rb_activ = activ, rb_downsample = downsample, rb_shortcut = (dim_in \<noteq> dim_out),
          rb_normalize = normalise, rb_conv_1 = c1, rb_conv_2 = c2,
          rb_norm_1 = n1, rb_norm_2 = n2, rb_conv_1x1 = c11\<rparr>)))))"

text \<open>The members of an \<open>nn.Sequential\<close> container.\<close>

datatype module =
    M_Conv2d conv2d
  | M_Linear linear
  | M_InstanceNorm2d instance_norm2d
  | M_Activation activation
  | M_ResBlock resblock

section \<open>Networks: constructors\<close>

text \<open>
  A local variable that a loop body assigns is unbound until the first iteration has run:
  \<open>dim_out\<close> is an option, and reading it while it is \<open>None\<close> raises
  \<open>UnboundLocalError\<close>.
\<close>

definition read_local :: "string \<Rightarrow> 'a option \<Rightarrow> error + 'a" where
  "read_local name v = (case v of None \<Rightarrow> Inl (UnboundLocalError name) | Some x \<Rightarrow> Inr x)"

record pyramid_state =
  ps_dim_in :: int
  ps_dim_out :: "int option"
  ps_blocks :: "module list"

text \<open>
  The downsampling loop of \<open>Discriminator.__init__\<close> and \<open>StyleEncoder.__init__\<close>
  (the same statements in both), run for the given number of iterations.
\<close>

fun pyramid_loop :: "nat \<Rightarrow> int \<Rightarrow> pyramid_state \<Rightarrow> error + pyramid_state" where
  "pyramid_loop 0 max_conv_dim st = Inr st"
| "pyramid_loop (Suc n) max_conv_dim st =
     (let dim_out = min (ps_dim_in st * 2) max_conv_dim in
      rbind (ResBlock_init (ps_dim_in st) dim_out 64 (LeakyReLU 0.2) True False) (\<lambda>rb.
      pyramid_loop n max_conv_dim
        \<lparr>ps_dim_in = dim_out, ps_dim_out = Some dim_out,
         ps_blocks = ps_blocks st @ [M_ResBlock rb]\<rparr>))"

record discriminator =
  d_blocks :: "module list"

definition Discriminator_init :: "int \<Rightarrow> int \<Rightarrow> int \<Rightarrow> error + discriminator" where
  "Discriminator_init img_size num_domains max_conv_dim =
     rbind (py_floordiv (2 ^ 14) img_size) (\<lambda>dim_in.
     rbind (Conv2d 3 dim_in 3 1 1 True) (\<lambda>c0.
     rbind (int_np_log2 img_size) (\<lambda>l.
     let num_blocks = l - 2 in
     rbind (pyramid_loop (nat num_blocks) max_conv_dim
              \<lparr>ps_dim_in = dim_in, ps_dim_out = None, ps_blocks = [M_Conv2d c0]\<rparr>) (\<lambda>st.
     let blocks = ps_blocks st @ [M_Activation (LeakyReLU 0.2)] in
     rbind (read_local ''dim_out'' (ps_dim_out st)) (\<lambda>dim_out.
     rbind (Conv2d dim_out dim_out 4 1 0 True) (\<lambda>c4.
     let blocks = blocks @ [M_Conv2d c4] @ [M_Activation (LeakyReLU 0.2)] in
     rbind (Conv2d dim_out num_domains 1 1 0 True) (\<lambda>c1.
     Inr \<lparr>d_blocks = blocks @ [M_Conv2d c1]\<rparr>)))))))"

record style_encoder =
  se_shared :: "module list"
  se_unshared :: "linear list"

definition StyleEncoder_init :: "int \<Rightarrow> int \<Rightarrow> int \<Rightarrow> int \<Rightarrow> error + style_encoder" where
  "StyleEncoder_init img_size style_dim num_domains max_conv_dim =
     rbind (py_floordiv (2 ^ 14) img_size) (\<lambda>dim_in.
     rbind (Conv2d 3 dim_in 3 1 1 True) (\<lambda>c0.
     rbind (int_np_log2 img_size) (\<lambda>l.
     let num_blocks = l - 2 in
     rbind (pyramid_loop (nat num_blocks) max_conv_dim
              \<lparr>ps_dim_in = dim_in, ps_dim_out = None, ps_blocks = [M_Conv2d c0]\<rparr>) (\<lambda>st.
     let blocks = ps_blocks st @ [M_Activation (LeakyReLU 0.2)] in
     rbind (read_local ''dim_out'' (ps_dim_out st)) (\<lambda>dim_out.
     rbind (Conv2d dim_out dim_out 4 1 0 True) (\<lambda>c4.
     let blocks = blocks @ [M_Conv2d c4] @ [M_Activation (LeakyReLU 0.2)] in
     rbind (rmap (\<lambda>_. Linear dim_out style_dim) [0..<nat num_domains]) (\<lambda>heads.
     Inr \<lparr>se_shared = blocks, se_unshared = heads\<rparr>)))))))"

record mapping_network =
  mn_shared :: "module list"
  mn_unshared :: "module list list"

definition MappingNetwork_init :: "int \<Rightarrow> int \<Rightarrow> int \<Rightarrow> error + mapping_network" where
  "MappingNetwork_init latent_dim style_dim num_domains =
     rbind (Linear latent_dim 512) (\<lambda>l0.
     rbind (rmap (\<lambda>_. rbind (Linear 512 512) (\<lambda>l. Inr [M_Linear l, M_Activation ReLU]))
              [0..<3]) (\<lambda>ls.
     rbind (rmap (\<lambda>_.
              rbind (Linear 512 512) (\<lambda>l1.
              rbind (Linear 512 512) (\<lambda>l2.
              rbind (Linear 512 512) (\<lambda>l3.
              rbind (Linear 512 style_dim) (\<lambda>l4.
              Inr [M_Linear l1, M_Activation ReLU, M_Linear l2, M_Activation ReLU,
                   M_Linear l3, M_Activation ReLU, M_Linear l4])))))
              [0..<nat num_domains]) (\<lambda>heads.
     Inr \<lparr>mn_shared = M_Linear l0 # concat ls, mn_unshared = heads\<rparr>)))"

record gen_state =
  gs_dim_in :: int
  gs_dim_out :: "int option"
  gs_encoder :: "resblock list"
  gs_decoder :: "adaresblock list"

text \<open>
  The first loop of \<open>Generator.__init__\<close>: each iteration appends a downsampling block
  to the encoder and inserts an upsampling block at the front of the decoder.
\<close>

fun Generator_down_loop :: "nat \<Rightarrow> int \<Rightarrow> int \<Rightarrow> gen_state \<Rightarrow> error + gen_state" where
  "Generator_down_loop 0 style_dim max_conv_dim st = Inr st"
| "Generator_down_loop (Suc n) style_dim max_conv_dim st =
     (let dim_out = min (gs_dim_in st * 2) max_conv_dim in
      rbind (ResBlock_init (gs_dim_in st) dim_out 64 (LeakyReLU 0.2) True True) (\<lambda>rb.
      rbind (AdaResBlock_init dim_out (gs_dim_in st) style_dim (LeakyReLU 0.2) True) (\<lambda>ab.
      Generator_down_loop n style_dim max_conv_dim
        \<lparr>gs_dim_in = dim_out, gs_dim_out = Some dim_out,
         gs_encoder = gs_encoder st @ [rb], gs_decoder = ab # gs_decoder st\<rparr>)))"

text \<open>The second loop: the blocks at the bottleneck, which read \<open>dim_out\<close>.\<close>

fun Generator_bottleneck_loop :: "nat \<Rightarrow> int \<Rightarrow> gen_state \<Rightarrow> error + gen_state" where
  "Generator_bottleneck_loop 0 style_dim st = Inr st"
| "Generator_bottleneck_loop (Suc n) style_dim st =
     rbind (read_local ''dim_out'' (gs_dim_out st)) (\<lambda>dim_out.
     rbind (ResBlock_init (gs_dim_in st) dim_out 64 (LeakyReLU 0.2) False True) (\<lambda>rb.
     rbind (AdaResBlock_init dim_out (gs_dim_in st) style_dim (LeakyReLU 0.2) False) (\<lambda>ab.
     Generator_bottleneck_loop n style_dim
       (st\<lparr>gs_encoder := gs_encoder st @ [rb], gs_decoder := ab # gs_decoder st\<rparr>))))"

record generator =
  g_conv_in :: conv2d
  g_encoder :: "resblock list"
  g_decoder :: "adaresblock list"
  g_conv_out :: "module list"

definition Generator_init :: "int \<Rightarrow> int \<Rightarrow> int \<Rightarrow> error + generator" where
  "Generator_init img_size style_dim max_conv_dim =
     rbind (py_floordiv (2 ^ 14) img_size) (\<lambda>dim_in.
     rbind (Conv2d 3 dim_in 3 1 1 True) (\<lambda>conv_in.
     rbind (InstanceNorm2d dim_in True) (\<lambda>n_out.
     rbind (Conv2d dim_in 3 1 1 0 True) (\<lambda>c_out.
     rbind (int_np_log2 img_size) (\<lambda>l.
     let num_blocks = l - 4 in
     rbind (Generator_down_loop (nat num_blocks) style_dim max_conv_dim
              \<lparr>gs_dim_in = dim_in, gs_dim_out = None, gs_encoder = [], gs_decoder = []\<rparr>) (\<lambda>st.
     rbind (Generator_bottleneck_loop 2 style_dim st) (\<lambda>st'.
     Inr \<lparr>g_conv_in = conv_in, g_encoder = gs_encoder st', g_decoder = gs_decoder st',
          g_conv_out = [M_InstanceNorm2d n_out, M_Activation (LeakyReLU 0.2),
                        M_Conv2d c_out]\<rparr>)))))))"


section \<open>Tensors\<close>

text \<open>
  A tensor is its shape and its elements, read by multi-index. Elements are real numbers:
  the rounding of floating-point arithmetic is outside the model. Index vectors (the domain
  labels \<open>y\<close>, a one-dimensional integer tensor) are lists of integers.
\<close>

type_synonym dims = "int list"

record tensor =
  shape :: dims
  elem :: "int list \<Rightarrow> real"

definition tensor_map :: "(real \<Rightarrow> real) \<Rightarrow> tensor \<Rightarrow> tensor" where
  "tensor_map f t = \<lparr>shape = shape t, elem = (\<lambda>idx. f (elem t idx))\<rparr>"

text \<open>Broadcasting of two shapes, aligned at the last dimension.\<close>

fun broadcast_rev :: "dims \<Rightarrow> dims \<Rightarrow> dims option" where
  "broadcast_rev [] ys = Some ys"
| "broadcast_rev (x # xs) [] = Some (x # xs)"
| "broadcast_rev (x # xs) (y # ys) =
     (if x = y then map_option ((#) x) (broadcast_rev xs ys)
      else if y = 1 then map_option ((#) x) (broadcast_rev xs ys)
      else if x = 1 then map_option ((#) y) (broadcast_rev xs ys)
      else None)"

definition broadcast_shapes :: "dims \<Rightarrow> dims \<Rightarrow> dims option" where
  "broadcast_shapes a b = map_option rev (broadcast_rev (rev a) (rev b))"

definition broadcast_index :: "dims \<Rightarrow> int list \<Rightarrow> int list" where
  "broadcast_index sh idx =
     map2 (\<lambda>d i. if d = 1 then 0 else i) sh (drop (length idx - length sh) idx)"

definition tensor_binop :: "(real \<Rightarrow> real \<Rightarrow> real) \<Rightarrow> tensor \<Rightarrow> tensor \<Rightarrow> error + tensor" where
  "tensor_binop f a b =
     (case broadcast_shapes (shape a) (shape b) of
        None \<Rightarrow> Inl RuntimeError
      | Some sh \<Rightarrow>
          Inr \<lparr>shape = sh,
               elem = (\<lambda>idx. f (elem a (broadcast_index (shape a) idx))
                                (elem b (broadcast_index (shape b) idx)))\<rparr>)"

definition tensor_add :: "tensor \<Rightarrow> tensor \<Rightarrow> error + tensor" where
  "tensor_add = tensor_binop (+)"

definition tensor_mul :: "tensor \<Rightarrow> tensor \<Rightarrow> error + tensor" where
  "tensor_mul = tensor_binop (*)"

definition scalar_add :: "real \<Rightarrow> tensor \<Rightarrow> tensor" where
  "scalar_add r t = tensor_map (\<lambda>v. r + v) t"

definition tensor_div_scalar :: "tensor \<Rightarrow> real \<Rightarrow> tensor" where
  "tensor_div_scalar t r = tensor_map (\<lambda>v. v / r) t"

text \<open>\<open>t.size(k)\<close>\<close>

definition size_at :: "tensor \<Rightarrow> nat \<Rightarrow> error + int" where
  "size_at t k = (if k < length (shape t) then Inr (shape t ! k) else Inl IndexError)"

text \<open>
  \<open>t.view(...)\<close> of a contiguous tensor: the elements keep their row-major position. One
  requested size may be \<open>-1\<close> and is inferred.
\<close>

definition ravel :: "dims \<Rightarrow> int list \<Rightarrow> int" where
  "ravel sh idx = foldl (\<lambda>acc (d, i). acc * d + i) 0 (zip sh idx)"

fun unravel :: "dims \<Rightarrow> int \<Rightarrow> int list" where
  "unravel [] k = []"
| "unravel (d # ds) k = (k div prod_list ds) # unravel ds (k mod prod_list ds)"

definition view_shape :: "int \<Rightarrow> dims \<Rightarrow> error + dims" where
  "view_shape n req =
     (if list_ex (\<lambda>d. d < - 1) req then Inl RuntimeError
      else if 1 < count_list req (- 1) then Inl RuntimeError
      else if count_list req (- 1) = 1 then
        (let p = prod_list (filter (\<lambda>d. 0 \<le> d) req) in
         if p = 0 then Inl RuntimeError
         else if n mod p = 0 then Inr (map (\<lambda>d. if d = - 1 then n div p else d) req)
         else Inl RuntimeError)
      else if prod_list req = n then Inr req
      else Inl RuntimeError)"

definition view :: "tensor \<Rightarrow> dims \<Rightarrow> error + tensor" where
  "view t req =
     rbind (view_shape (prod_list (shape t)) req) (\<lambda>sh.
     Inr \<lparr>shape = sh, elem = (\<lambda>idx. elem t (unravel (shape t) (ravel sh idx)))\<rparr>)"

text \<open>\<open>torch.chunk(t, chunks, dim)\<close>: consecutive slices along one dimension.\<close>

definition narrow :: "tensor \<Rightarrow> nat \<Rightarrow> int \<Rightarrow> int \<Rightarrow> tensor" where
  "narrow t axis start len =
     \<lparr>shape = (shape t)[axis := len],
      elem = (\<lambda>idx. elem t (idx[axis := idx ! axis + start]))\<rparr>"

definition chunk :: "tensor \<Rightarrow> int \<Rightarrow> nat \<Rightarrow> error + tensor list" where
  "chunk t chunks axis =
     (if length (shape t) \<le> axis then Inl IndexError
      else if chunks \<le> 0 then Inl RuntimeError
      else
        (let n = shape t ! axis; split_size = (n + chunks - 1) div chunks in
         if split_size = 0 then Inr (replicate (nat chunks) (narrow t axis 0 0))
         else
           (let num = max ((n + split_size - 1) div split_size) 1 in
            Inr (map (\<lambda>i. narrow t axis (int i * split_size)
                             (min split_size (n - int i * split_size)))
                   [0..<nat num]))))"

text \<open>\<open>a, b = ts\<close>\<close>

definition unpack2 :: "'a list \<Rightarrow> error + 'a \<times> 'a" where
  "unpack2 ts = (case ts of [a, b] \<Rightarrow> Inr (a, b) | _ \<Rightarrow> Inl ValueError)"

text \<open>\<open>torch.stack(ts, axis)\<close>: a new dimension that enumerates the tensors of the list.\<close>

definition stack :: "tensor list \<Rightarrow> nat \<Rightarrow> error + tensor" where
  "stack ts axis =
     (case ts of
        [] \<Rightarrow> Inl RuntimeError
      | t # _ \<Rightarrow>
          if length (shape t) < axis then Inl IndexError
          else if list_all (\<lambda>u. shape u = shape t) ts then
            Inr \<lparr>shape = take axis (shape t) @ [int (length ts)] @ drop axis (shape t),
                 elem = (\<lambda>idx. elem (ts ! nat (idx ! axis)) (take axis idx @ drop (Suc axis) idx))\<rparr>
          else Inl RuntimeError)"

text \<open>
  \<open>t[i0, i1]\<close> with two one-dimensional integer tensors of the same length: entry \<open>k\<close> of
  the result is \<open>t[i0[k], i1[k]]\<close>. An index \<open>i\<close> into a dimension of size \<open>n\<close> is
  accepted when \<open>-n \<le> i < n\<close>, a negative one counting from the end.
\<close>

definition wrap_index :: "int \<Rightarrow> int \<Rightarrow> error + int" where
  "wrap_index n i =
     (if i < - n then Inl IndexError
      else if n \<le> i then Inl IndexError
      else if i < 0 then Inr (i + n)
      else Inr i)"

definition index2 :: "tensor \<Rightarrow> int list \<Rightarrow> int list \<Rightarrow> error + tensor" where
  "index2 t i0 i1 =
     (if length (shape t) < 2 then Inl IndexError
      else if length i0 = length i1 then
        rbind (rmap (wrap_index (shape t ! 0)) i0) (\<lambda>j0.
        rbind (rmap (wrap_index (shape t ! 1)) i1) (\<lambda>j1.
        Inr \<lparr>shape = int (length i0) # drop 2 (shape t),
             elem = (\<lambda>idx. elem t (j0 ! nat (hd idx) # j1 ! nat (hd idx) # tl idx))\<rparr>))
      else Inl IndexError)"

text \<open>\<open>torch.LongTensor(range(n))\<close>\<close>

definition LongTensor_range :: "nat \<Rightarrow> int list" where
  "LongTensor_range n = map int [0..<n]"

section \<open>Layers: forward\<close>

text \<open>
  The numbers a convolution, a linear layer and an instance normalisation produce depend on
  their parameters and on statistics of the input. The model leaves them open. The
  parameters of a module form a tree, as the library keeps them: a sub-module is reached by
  the name of the attribute that holds it, a member of a container (\<open>nn.Sequential\<close>,
  \<open>nn.ModuleList\<close>) by its index. \<open>kernels\<close> is that tree. At the node of a layer it
  gives, for the layer's hyper-parameters and an input, the element of the output at an
  index; \<open>k_sub K n\<close> is the tree of the sub-module \<open>n\<close>. Two layers at different
  paths are two functions, whatever their hyper-parameters. Every statement holds for all
  kernels. The shape of an output is computed here, from the layer's hyper-parameters.
\<close>

datatype key = Attr string | Item nat

codatatype kernels = Kernels
  (k_conv2d: "conv2d \<Rightarrow> tensor \<Rightarrow> int list \<Rightarrow> real")
  (k_linear: "linear \<Rightarrow> tensor \<Rightarrow> int list \<Rightarrow> real")
  (k_instance_norm: "instance_norm2d \<Rightarrow> tensor \<Rightarrow> int list \<Rightarrow> real")
  (k_sub: "key \<Rightarrow> kernels")

text \<open>
  A convolution takes a batched feature map, of rank 4, or a single one, of rank 3. It
  raises when its stride is not positive, when its padding is negative, when it has no
  output channel, when the channels of its input are not its \<open>in_channels\<close>, and when
  its kernel does not fit the padded input.
\<close>

definition conv2d_out :: "conv2d \<Rightarrow> int \<Rightarrow> int \<Rightarrow> int \<Rightarrow> error + dims" where
  "conv2d_out c ch h w =
     (if stride c \<le> 0 \<or> padding c < 0 \<or> out_channels c < 1 then Inl RuntimeError
      else if ch = in_channels c \<and> kernel_size c \<le> h + 2 * padding c
                \<and> kernel_size c \<le> w + 2 * padding c
      then Inr [out_channels c,
                (h + 2 * padding c - kernel_size c) div stride c + 1,
                (w + 2 * padding c - kernel_size c) div stride c + 1]
      else Inl RuntimeError)"

fun conv2d_shape :: "conv2d \<Rightarrow> dims \<Rightarrow> error + dims" where
  "conv2d_shape c [b, ch, h, w] = rbind (conv2d_out c ch h w) (\<lambda>sh. Inr (b # sh))"
| "conv2d_shape c [ch, h, w] = conv2d_out c ch h w"
| "conv2d_shape c sh = Inl RuntimeError"

definition conv2d_forward :: "kernels \<Rightarrow> conv2d \<Rightarrow> tensor \<Rightarrow> error + tensor" where
  "conv2d_forward K c x =
     rbind (conv2d_shape c (shape x)) (\<lambda>sh. Inr \<lparr>shape = sh, elem = k_conv2d K c x\<rparr>)"

text \<open>A linear layer raises when the last dimension of its input is not its \<open>in_features\<close>.\<close>

definition linear_shape :: "linear \<Rightarrow> dims \<Rightarrow> error + dims" where
  "linear_shape l sh =
     (if sh = [] then Inl RuntimeError
      else if last sh = in_features l then Inr (butlast sh @ [out_features l])
      else Inl RuntimeError)"

definition linear_forward :: "kernels \<Rightarrow> linear \<Rightarrow> tensor \<Rightarrow> error + tensor" where
  "linear_forward K l x =
     rbind (linear_shape l (shape x)) (\<lambda>sh. Inr \<lparr>shape = sh, elem = k_linear K l x\<rparr>)"

text \<open>
  An instance normalisation takes a batched feature map, of rank 4, or a single one, of
  rank 3, which it treats as a batch of one. In this order: with learned affine parameters
  it raises \<open>ValueError\<close> when the channels of the input are not its \<open>num_features\<close>;
  it raises \<open>ValueError\<close> when a feature map has a single spatial element; with learned
  affine parameters it raises \<open>IndexError\<close> when the batch is empty or there is no
  channel, where it reads the first of the parameters repeated over the batch.
\<close>

definition instance_norm_check ::
  "instance_norm2d \<Rightarrow> int \<Rightarrow> int \<Rightarrow> int \<Rightarrow> int \<Rightarrow> error + unit" where
  "instance_norm_check n b ch h w =
     (if affine n \<and> ch \<noteq> num_features n then Inl ValueError
      else if h * w = 1 then Inl ValueError
      else if affine n \<and> (b = 0 \<or> ch = 0) then Inl IndexError
      else Inr ())"

fun instance_norm_shape :: "instance_norm2d \<Rightarrow> dims \<Rightarrow> error + dims" where
  "instance_norm_shape n [b, ch, h, w] =
     rbind (instance_norm_check n b ch h w) (\<lambda>_. Inr [b, ch, h, w])"
| "instance_norm_shape n [ch, h, w] =
     rbind (instance_norm_check n 1 ch h w) (\<lambda>_. Inr [ch, h, w])"
| "instance_norm_shape n sh = Inl ValueError"

definition instance_norm_forward :: "kernels \<Rightarrow> instance_norm2d \<Rightarrow> tensor \<Rightarrow> error + tensor" where
  "instance_norm_forward K n x =
     rbind (instance_norm_shape n (shape x)) (\<lambda>sh.
     Inr \<lparr>shape = sh, elem = k_instance_norm K n x\<rparr>)"

fun activation_fn :: "activation \<Rightarrow> real \<Rightarrow> real" where
  "activation_fn (LeakyReLU slope) v = (if 0 \<le> v then v else slope * v)"
| "activation_fn ReLU v = max 0 v"

definition activation_forward :: "activation \<Rightarrow> tensor \<Rightarrow> error + tensor" where
  "activation_forward a x = Inr (tensor_map (activation_fn a) x)"

text \<open>
  \<open>F.avg_pool2d(x, k)\<close>: the mean over windows of size \<open>k\<close>, stride \<open>k\<close>, no padding,
  of a batched feature map or of a single one.
\<close>

fun avg_pool2d :: "tensor \<Rightarrow> int \<Rightarrow> error + tensor" where
  "avg_pool2d x k =
     (case shape x of
        [b, ch, h, w] \<Rightarrow>
          if k \<le> 0 then Inl RuntimeError
          else if h div k < 1 then Inl RuntimeError
          else if w div k < 1 then Inl RuntimeError
          else Inr \<lparr>shape = [b, ch, h div k, w div k],
                    elem = (\<lambda>idx.
                      (\<Sum>di \<leftarrow> [0..k - 1]. \<Sum>dj \<leftarrow> [0..k - 1].
                         elem x [idx ! 0, idx ! 1, idx ! 2 * k + di, idx ! 3 * k + dj])
                      / real_of_int (k * k))\<rparr>
      | [ch, h, w] \<Rightarrow>
          if k \<le> 0 then Inl RuntimeError
          else if h div k < 1 then Inl RuntimeError
          else if w div k < 1 then Inl RuntimeError
          else Inr \<lparr>shape = [ch, h div k, w div k],
                    elem = (\<lambda>idx.
                      (\<Sum>di \<leftarrow> [0..k - 1]. \<Sum>dj \<leftarrow> [0..k - 1].
                         elem x [idx ! 0, idx ! 1 * k + di, idx ! 2 * k + dj])
                      / real_of_int (k * k))\<rparr>
      | _ \<Rightarrow> Inl RuntimeError)"

text \<open>\<open>F.interpolate(x, scale_factor = k, mode = 'nearest')\<close>\<close>

definition interpolate_nearest :: "tensor \<Rightarrow> int \<Rightarrow> error + tensor" where
  "interpolate_nearest x k =
     (if length (shape x) \<in> {3, 4, 5} then
        Inr \<lparr>shape = take 2 (shape x) @ map (\<lambda>d. d * k) (drop 2 (shape x)),
             elem = (\<lambda>idx. elem x (take 2 idx @ map (\<lambda>i. i div k) (drop 2 idx)))\<rparr>
      else Inl NotImplementedError)"

definition get_attr :: "string \<Rightarrow> 'a option \<Rightarrow> error + 'a" where
  "get_attr name v = (case v of None \<Rightarrow> Inl (AttributeError name) | Some x \<Rightarrow> Inr x)"

section \<open>Blocks: forward\<close>

text \<open>
  An \<open>AdaptiveInstanceNorm\<close> holds one linear layer and one normalisation; at its node,
  \<open>k_linear\<close> is the function of \<open>fc\<close> and \<open>k_instance_norm\<close> that of \<open>norm\<close>. A
  block reaches its layers by their attribute names.
\<close>

definition AdaptiveInstanceNorm_forward ::
  "kernels \<Rightarrow> adaptive_instance_norm \<Rightarrow> tensor \<Rightarrow> tensor \<Rightarrow> error + tensor" where
  "AdaptiveInstanceNorm_forward K a x s =
     rbind (linear_forward K (ain_fc a) s) (\<lambda>h.
     rbind (size_at h 0) (\<lambda>n0.
     rbind (size_at h 1) (\<lambda>n1.
     rbind (view h [n0, n1, 1, 1]) (\<lambda>h.
     rbind (chunk h 2 1) (\<lambda>cs.
     rbind (unpack2 cs) (\<lambda>(gamma, beta).
     rbind (instance_norm_forward K (ain_norm a) x) (\<lambda>n.
     rbind (tensor_mul (scalar_add 1 gamma) n) (\<lambda>m.
     tensor_add m beta))))))))"

definition AdaResBlock_shortcut :: "kernels \<Rightarrow> adaresblock \<Rightarrow> tensor \<Rightarrow> error + tensor" where
  "AdaResBlock_shortcut K blk x =
     rbind (if ab_upsample blk then interpolate_nearest x 2 else Inr x) (\<lambda>x.
     if ab_shortcut blk
     then rbind (get_attr ''conv_1x1'' (ab_conv_1x1 blk))
            (\<lambda>c. conv2d_forward (k_sub K (Attr ''conv_1x1'')) c x)
     else Inr x)"

definition AdaResBlock_residual ::
  "kernels \<Rightarrow> adaresblock \<Rightarrow> tensor \<Rightarrow> tensor \<Rightarrow> error + tensor" where
  "AdaResBlock_residual K blk x s =
     rbind (AdaptiveInstanceNorm_forward (k_sub K (Attr ''norm_1'')) (ab_norm_1 blk) x s) (\<lambda>x.
     rbind (activation_forward (ab_activ blk) x) (\<lambda>x.
     rbind (if ab_upsample blk then interpolate_nearest x 2 else Inr x) (\<lambda>x.
     rbind (conv2d_forward (k_sub K (Attr ''conv_1'')) (ab_conv_1 blk) x) (\<lambda>x.
     rbind (AdaptiveInstanceNorm_forward (k_sub K (Attr ''norm_2'')) (ab_norm_2 blk) x s) (\<lambda>x.
     rbind (activation_forward (ab_activ blk) x) (\<lambda>x.
     conv2d_forward (k_sub K (Attr ''conv_2'')) (ab_conv_2 blk) x))))))"

definition AdaResBlock_forward ::
  "kernels \<Rightarrow> adaresblock \<Rightarrow> tensor \<Rightarrow> tensor \<Rightarrow> error + tensor" where
  "AdaResBlock_forward K blk x s =
     rbind (AdaResBlock_residual K blk x s) (\<lambda>out.
     rbind (AdaResBlock_shortcut K blk x) (\<lambda>sc.
     rbind (tensor_add out sc) (\<lambda>t.
     Inr (tensor_div_scalar t (sqrt 2)))))"

definition ResBlock_shortcut :: "kernels \<Rightarrow> resblock \<Rightarrow> tensor \<Rightarrow> error + tensor" where
  "ResBlock_shortcut K blk x =
     rbind (if rb_shortcut blk
            then rbind (get_attr ''conv_1x1'' (rb_conv_1x1 blk))
                   (\<lambda>c. conv2d_forward (k_sub K (Attr ''conv_1x1'')) c x)
            else Inr x) (\<lambda>x.
     if rb_downsample blk then avg_pool2d x 2 else Inr x)"

definition ResBlock_residual :: "kernels \<Rightarrow> resblock \<Rightarrow> tensor \<Rightarrow> error + tensor" where
  "ResBlock_residual K blk x =
     rbind (if rb_normalize blk
            then rbind (get_attr ''norm_1'' (rb_norm_1 blk))
                   (\<lambda>n. instance_norm_forward (k_sub K (Attr ''norm_1'')) n x)
            else Inr x) (\<lambda>x.
     rbind (activation_forward (rb_activ blk) x) (\<lambda>x.
     rbind (conv2d_forward (k_sub K (Attr ''conv_1'')) (rb_conv_1 blk) x) (\<lambda>x.
     rbind (if rb_downsample blk then avg_pool2d x 2 else Inr x) (\<lambda>x.
     rbind (if rb_normalize blk
            then rbind (get_attr ''norm_2'' (rb_norm_2 blk))
                   (\<lambda>n. instance_norm_forward (k_sub K (Attr ''norm_2'')) n x)
            else Inr x) (\<lambda>x.
     rbind (activation_forward (rb_activ blk) x) (\<lambda>x.
     conv2d_forward (k_sub K (Attr ''conv_2'')) (rb_conv_2 blk) x))))))"

definition ResBlock_forward :: "kernels \<Rightarrow> resblock \<Rightarrow> tensor \<Rightarrow> error + tensor" where
  "ResBlock_forward K blk x =
     rbind (ResBlock_residual K blk x) (\<lambda>out.
     rbind (ResBlock_shortcut K blk x) (\<lambda>sc.
     rbind (tensor_add out sc) (\<lambda>t.
     Inr (tensor_div_scalar t (sqrt 2)))))"

fun module_forward :: "kernels \<Rightarrow> module \<Rightarrow> tensor \<Rightarrow> error + tensor" where
  "module_forward K (M_Conv2d c) x = conv2d_forward K c x"
| "module_forward K (M_Linear l) x = linear_forward K l x"
| "module_forward K (M_InstanceNorm2d n) x = instance_norm_forward K n x"
| "module_forward K (M_Activation a) x = activation_forward a x"
| "module_forward K (M_ResBlock b) x = ResBlock_forward K b x"

text \<open>
  \<open>nn.Sequential\<close>: each member is applied to the output of the one before. The member
  at position \<open>i\<close> has the kernels at index \<open>i\<close>; \<open>Sequential_from\<close> runs the members
  from a position on.
\<close>

fun Sequential_from :: "kernels \<Rightarrow> nat \<Rightarrow> module list \<Rightarrow> tensor \<Rightarrow> error + tensor" where
  "Sequential_from K i [] x = Inr x"
| "Sequential_from K i (m # ms) x =
     rbind (module_forward (k_sub K (Item i)) m x) (Sequential_from K (Suc i) ms)"

definition Sequential_forward :: "kernels \<Rightarrow> module list \<Rightarrow> tensor \<Rightarrow> error + tensor" where
  "Sequential_forward K ms x = Sequential_from K 0 ms x"

section \<open>Networks: forward\<close>

text \<open>
  The discriminator has one sub-module, the container \<open>blocks\<close>: its kernels are those of
  the container.
\<close>

definition Discriminator_forward ::
  "kernels \<Rightarrow> discriminator \<Rightarrow> tensor \<Rightarrow> int list \<Rightarrow> error + tensor" where
  "Discriminator_forward K d x y =
     rbind (Sequential_forward K (d_blocks d) x) (\<lambda>out.
     rbind (size_at out 0) (\<lambda>n0.
     rbind (view out [n0, - 1]) (\<lambda>out.
     let indx = LongTensor_range (length y) in
     index2 out indx y)))"

text \<open>
  \<open>for layer in self.unshared: out += [layer(x)]\<close>: the members of a \<open>nn.ModuleList\<close>
  in the order of their indices, each with the kernels at its index.
\<close>

definition StyleEncoder_forward ::
  "kernels \<Rightarrow> style_encoder \<Rightarrow> tensor \<Rightarrow> int list \<Rightarrow> error + tensor" where
  "StyleEncoder_forward K e x y =
     rbind (Sequential_forward (k_sub K (Attr ''shared'')) (se_shared e) x) (\<lambda>h.
     rbind (size_at h 0) (\<lambda>n0.
     rbind (view h [n0, - 1]) (\<lambda>h.
     rbind (rmap (\<lambda>(i, layer).
              linear_forward (k_sub (k_sub K (Attr ''unshared'')) (Item i)) layer x)
            (enumerate 0 (se_unshared e))) (\<lambda>out.
     rbind (stack out 1) (\<lambda>out.
     let indx = LongTensor_range (length y) in
     index2 out indx y)))))"

text \<open>
  The names bound at the top level of the module: its imports, its classes, and the
  variables of the demonstration at its end. A name that a function body reads without
  assigning it is looked up here; one that is not bound raises \<open>NameError\<close>. None of the
  objects bound here is a list of layers, so iterating over one and calling its members on a
  tensor raises \<open>TypeError\<close>.
\<close>

definition module_globals :: "string list" where
  "module_globals =
     [''nn'', ''torch'', ''F'', ''np'', ''math'',
      ''AdaptiveInstanceNorm'', ''AdaResBlock'', ''ResBlock'', ''Discriminator'',
      ''StyleEncoder'', ''MappingNetwork'', ''Generator'',
      ''device'', ''inp'', ''style_code'', ''latent_space'',
      ''generator'', ''mapping'', ''style'', ''disc'', ''out'']"

definition global_layers :: "string \<Rightarrow> error + module list list" where
  "global_layers name =
     (if name \<in> set module_globals then Inl TypeError else Inl (NameError name))"

definition MappingNetwork_forward ::
  "kernels \<Rightarrow> mapping_network \<Rightarrow> tensor \<Rightarrow> int list \<Rightarrow> error + tensor" where
  "MappingNetwork_forward K m z y =
     rbind (Sequential_forward (k_sub K (Attr ''shared'')) (mn_shared m) z) (\<lambda>h.
     rbind (global_layers ''unshared'') (\<lambda>unshared.
     rbind (rmap (\<lambda>(i, layer).
              Sequential_forward (k_sub (k_sub K (Attr ''unshared'')) (Item i)) layer h)
            (enumerate 0 unshared)) (\<lambda>out.
     rbind (stack out 1) (\<lambda>out.
     let indx = LongTensor_range (length y) in
     index2 out indx y))))"

text \<open>
  \<open>for block in self.encoder: x = block(x)\<close> and the same loop over the decoder, from a
  position on.
\<close>

fun encoder_forward :: "kernels \<Rightarrow> nat \<Rightarrow> resblock list \<Rightarrow> tensor \<Rightarrow> error + tensor" where
  "encoder_forward K i [] x = Inr x"
| "encoder_forward K i (block # blocks) x =
     rbind (ResBlock_forward (k_sub K (Item i)) block x) (encoder_forward K (Suc i) blocks)"

fun decoder_forward ::
  "kernels \<Rightarrow> nat \<Rightarrow> adaresblock list \<Rightarrow> tensor \<Rightarrow> tensor \<Rightarrow> error + tensor" where
  "decoder_forward K i [] x s = Inr x"
| "decoder_forward K i (block # blocks) x s =
     rbind (AdaResBlock_forward (k_sub K (Item i)) block x s)
       (\<lambda>x. decoder_forward K (Suc i) blocks x s)"

definition Generator_forward ::
  "kernels \<Rightarrow> generator \<Rightarrow> tensor \<Rightarrow> tensor \<Rightarrow> error + tensor" where
  "Generator_forward K g x s =
     rbind (conv2d_forward (k_sub K (Attr ''conv_in'')) (g_conv_in g) x) (\<lambda>x.
     rbind (encoder_forward (k_sub K (Attr ''encoder'')) 0 (g_encoder g) x) (\<lambda>x.
     rbind (decoder_forward (k_sub K (Attr ''decoder'')) 0 (g_decoder g) x s) (\<lambda>x.
     Sequential_forward (k_sub K (Attr ''conv_out'')) (g_conv_out g) x)))"

section \<open>Notions used in the statements\<close>

text \<open>
  The channel widths a block was built with: \<open>ResBlock(dim_in, dim_out)\<close> keeps
  \<open>dim_in\<close> as the input width of its first convolution and \<open>dim_out\<close> as the output
  width of its second; so does \<open>AdaResBlock\<close>.
\<close>

definition rb_dim_in :: "resblock \<Rightarrow> int" where
  "rb_dim_in b = in_channels (rb_conv_1 b)"

definition rb_dim_out :: "resblock \<Rightarrow> int" where
  "rb_dim_out b = out_channels (rb_conv_2 b)"

definition ab_dim_in :: "adaresblock \<Rightarrow> int" where
  "ab_dim_in b = in_channels (ab_conv_1 b)"

definition ab_dim_out :: "adaresblock \<Rightarrow> int" where
  "ab_dim_out b = out_channels (ab_conv_2 b)"

text \<open>The width a member of a container consumes and the width it emits.\<close>

fun module_widths :: "module \<Rightarrow> (int \<times> int) option" where
  "module_widths (M_Conv2d c) = Some (in_channels c, out_channels c)"
| "module_widths (M_Linear l) = Some (in_features l, out_features l)"
| "module_widths (M_InstanceNorm2d n) = Some (num_features n, num_features n)"
| "module_widths (M_Activation a) = None"
| "module_widths (M_ResBlock b) = Some (rb_dim_in b, rb_dim_out b)"

text \<open>
  The widths along \<open>Generator.forward\<close>, in the order the blocks run: input stem,
  encoder, decoder, output stem.
\<close>

definition Generator_widths :: "generator \<Rightarrow> (int \<times> int) list" where
  "Generator_widths g =
     (in_channels (g_conv_in g), out_channels (g_conv_in g))
     # map (\<lambda>e. (rb_dim_in e, rb_dim_out e)) (g_encoder g)
     @ map (\<lambda>d. (ab_dim_in d, ab_dim_out d)) (g_decoder g)
     @ List.map_filter module_widths (g_conv_out g)"

text \<open>Every block consumes the width the block before it emits.\<close>

fun chained :: "(int \<times> int) list \<Rightarrow> bool" where
  "chained [] = True"
| "chained [p] = True"
| "chained (p # q # r) = (snd p = fst q \<and> chained (q # r))"

text \<open>
  The decoder block that mirrors an encoder block: built with the widths swapped and
  upsampling where the encoder block downsamples.
\<close>

definition mirrored :: "int \<Rightarrow> resblock \<Rightarrow> adaresblock \<Rightarrow> bool" where
  "mirrored style_dim e d \<longleftrightarrow>
     AdaResBlock_init (rb_dim_out e) (rb_dim_in e) style_dim (LeakyReLU 0.2) (rb_downsample e)
       = Inr d"

definition stage_widths :: "int \<Rightarrow> resblock \<Rightarrow> bool" where
  "stage_widths max_conv_dim e \<longleftrightarrow>
     rb_dim_out e
       = (if rb_downsample e then min (rb_dim_in e * 2) max_conv_dim else rb_dim_in e)"

fun enc_chain :: "int \<Rightarrow> resblock list \<Rightarrow> int \<Rightarrow> bool" where
  "enc_chain c [] c' = (c = c')"
| "enc_chain c (e # es) c' = (rb_dim_in e = c \<and> enc_chain (rb_dim_out e) es c')"

text \<open>The invariant of the two loops of \<open>Generator.__init__\<close>.\<close>

definition gen_inv :: "int \<Rightarrow> int \<Rightarrow> int \<Rightarrow> gen_state \<Rightarrow> bool" where
  "gen_inv c0 style_dim max_conv_dim st \<longleftrightarrow>
     list_all2 (mirrored style_dim) (rev (gs_encoder st)) (gs_decoder st)
   \<and> enc_chain c0 (gs_encoder st) (gs_dim_in st)
   \<and> list_all (stage_widths max_conv_dim) (gs_encoder st)"

text \<open>Kernels and inputs for concrete instances: every number is zero.\<close>

primcorec K0 :: kernels where
  "k_conv2d K0 = (\<lambda>_ _ _. 0)"
| "k_linear K0 = (\<lambda>_ _ _. 0)"
| "k_instance_norm K0 = (\<lambda>_ _ _. 0)"
| "k_sub K0 = (\<lambda>_. K0)"

definition zeros :: "dims \<Rightarrow> tensor" where
  "zeros sh = \<lparr>shape = sh, elem = (\<lambda>_. 0)\<rparr>"

text \<open>The shape of a result, or the exception.\<close>

definition rshape :: "error + tensor \<Rightarrow> error + dims" where
  "rshape r = map_sum id shape r"

text \<open>Kernels for concrete instances whose numbers depend on the index and on the input.\<close>

primcorec K1 :: kernels where
  "k_conv2d K1 = (\<lambda>_ _ idx. real_of_int (idx ! 1))"
| "k_linear K1 = (\<lambda>_ _ idx. real_of_int (sum_list idx))"
| "k_instance_norm K1 = (\<lambda>_ x idx. elem x idx - 1)"
| "k_sub K1 = (\<lambda>_. K1)"

text \<open>An index that addresses an element of a tensor of the given shape.\<close>

definition valid_index :: "dims \<Rightarrow> int list \<Rightarrow> bool" where
  "valid_index sh idx \<longleftrightarrow> list_all2 (\<lambda>i d. 0 \<le> i \<and> i < d) idx sh"

text \<open>
  The two paths of a residual block as the specification words them, for a block built
  with \<open>ResBlock(dim_in, dim_out, downsample, normalize)\<close>. The shortcut is the identity
  unless \<open>dim_in \<noteq> dim_out\<close>, then a 1x1 convolution without bias that changes the number
  of channels; average pooling by 2 follows when \<open>downsample\<close> is set. The residual path is
  instance normalisation (optional), activation, 3x3 convolution that keeps \<open>dim_in\<close>
  channels, average pooling by 2 (optional), a second instance normalisation (optional),
  activation, 3x3 convolution to \<open>dim_out\<close> channels. Each layer has parameters of its
  own: the projection those of \<open>conv_1x1\<close>, the first and the second normalisation those
  of \<open>norm_1\<close> and \<open>norm_2\<close>, the first and the second convolution those of \<open>conv_1\<close>
  and \<open>conv_2\<close>.
\<close>

definition spec_shortcut_path :: "kernels \<Rightarrow> int \<Rightarrow> int \<Rightarrow> bool \<Rightarrow> tensor \<Rightarrow> error + tensor" where
  "spec_shortcut_path K dim_in dim_out downsample x =
     rbind (if dim_in \<noteq> dim_out
            then conv2d_forward (k_sub K (Attr ''conv_1x1''))
                   \<lparr>in_channels = dim_in, out_channels = dim_out,
                    kernel_size = 1, stride = 1, padding = 0, bias = False\<rparr> x
            else Inr x) (\<lambda>projected.
     if downsample then avg_pool2d projected 2 else Inr projected)"

definition spec_residual_path ::
  "kernels \<Rightarrow> int \<Rightarrow> int \<Rightarrow> bool \<Rightarrow> bool \<Rightarrow> tensor \<Rightarrow> error + tensor" where
  "spec_residual_path K dim_in dim_out downsample normalise x =
     rbind (if normalise
            then instance_norm_forward (k_sub K (Attr ''norm_1''))
                   \<lparr>num_features = dim_in, affine = True\<rparr> x
            else Inr x) (\<lambda>normed.
     rbind (activation_forward (LeakyReLU 0.2) normed) (\<lambda>activated.
     rbind (conv2d_forward (k_sub K (Attr ''conv_1''))
              \<lparr>in_channels = dim_in, out_channels = dim_in, kernel_size = 3,
               stride = 1, padding = 1, bias = True\<rparr> activated) (\<lambda>convolved.
     rbind (if downsample then avg_pool2d convolved 2 else Inr convolved) (\<lambda>pooled.
     rbind (if normalise
            then instance_norm_forward (k_sub K (Attr ''norm_2''))
                   \<lparr>num_features = dim_in, affine = True\<rparr> pooled
            else Inr pooled) (\<lambda>normed2.
     rbind (activation_forward (LeakyReLU 0.2) normed2) (\<lambda>activated2.
     conv2d_forward (k_sub K (Attr ''conv_2''))
       \<lparr>in_channels = dim_in, out_channels = dim_out, kernel_size = 3,
        stride = 1, padding = 1, bias = True\<rparr> activated2))))))"

text \<open>
  Parameters for a concrete residual block, each layer with its own. The convolutions
  have weights that are zero off the centre of the kernel: \<open>conv_1\<close> copies each channel
  and adds a bias of 1; \<open>conv_2\<close> and the projection \<open>conv_1x1\<close> sum the channels of the
  input, \<open>conv_2\<close> with a bias of 5 and the projection, built without bias, with none.
  The normalisations have the learned scale 0, so that their output is their learned
  shift: 2 for \<open>norm_1\<close>, 3 for \<open>norm_2\<close>.
\<close>

definition channel_sum :: "int \<Rightarrow> tensor \<Rightarrow> int list \<Rightarrow> real" where
  "channel_sum n x idx = (\<Sum>c \<leftarrow> [0..n - 1]. elem x (idx[1 := c]))"

fun last_attr :: "string \<Rightarrow> key \<Rightarrow> string" where
  "last_attr name (Attr a) = a"
| "last_attr name (Item i) = name"

primcorec K_block :: "string \<Rightarrow> kernels" where
  "k_conv2d (K_block name) =
     (\<lambda>c x idx. if name = ''conv_1'' then elem x idx + 1
                else if name = ''conv_2'' then channel_sum (in_channels c) x idx + 5
                else channel_sum (in_channels c) x idx)"
| "k_linear (K_block name) = (\<lambda>_ _ _. 0)"
| "k_instance_norm (K_block name) = (\<lambda>_ _ _. if name = ''norm_1'' then 2 else 3)"
| "k_sub (K_block name) = (\<lambda>k. K_block (last_attr name k))"

text \<open>A feature map whose channel \<open>c\<close> is \<open>c + 1\<close> everywhere.\<close>

definition ramp :: "dims \<Rightarrow> tensor" where
  "ramp sh = \<lparr>shape = sh, elem = (\<lambda>idx. real_of_int (idx ! 1) + 1)\<rparr>"

text \<open>
  The two halves of \<open>StyleEncoder.forward\<close>: the shared feature \<open>h\<close> (the pyramid's output,
  flattened), and the per-domain heads run on a tensor \<open>t\<close>, stacked and gathered by \<open>y\<close>.
\<close>

definition StyleEncoder_features :: "kernels \<Rightarrow> style_encoder \<Rightarrow> tensor \<Rightarrow> error + tensor" where
  "StyleEncoder_features K e x =
     rbind (Sequential_forward (k_sub K (Attr ''shared'')) (se_shared e) x) (\<lambda>h.
     rbind (size_at h 0) (\<lambda>n0.
     view h [n0, - 1]))"

definition heads_on :: "kernels \<Rightarrow> linear list \<Rightarrow> tensor \<Rightarrow> int list \<Rightarrow> error + tensor" where
  "heads_on K heads t y =
     rbind (rmap (\<lambda>(i, layer).
              linear_forward (k_sub (k_sub K (Attr ''unshared'')) (Item i)) layer t)
            (enumerate 0 heads)) (\<lambda>out.
     rbind (stack out 1) (\<lambda>out.
     index2 out (LongTensor_range (length y)) y))"

text \<open>The width after a number of downsampling stages: doubled at each, up to the cap.\<close>

fun stage_width :: "nat \<Rightarrow> int \<Rightarrow> int \<Rightarrow> int" where
  "stage_width 0 max_conv_dim c = c"
| "stage_width (Suc n) max_conv_dim c = stage_width n max_conv_dim (min (c * 2) max_conv_dim)"

text \<open>An element of a result; zero when the computation raised.\<close>

definition relem :: "error + tensor \<Rightarrow> int list \<Rightarrow> real" where
  "relem r idx = (case r of Inl e \<Rightarrow> 0 | Inr t \<Rightarrow> elem t idx)"

text \<open>
  An encoder block as \<open>Generator.__init__\<close> builds it: with normalisation and the default
  activation.
\<close>

definition built_ResBlock :: "resblock \<Rightarrow> bool" where
  "built_ResBlock e \<longleftrightarrow>
     ResBlock_init (rb_dim_in e) (rb_dim_out e) 64 (LeakyReLU 0.2) (rb_downsample e) True = Inr e"

text \<open>
  Spatial sizes along the generator, from the list of the encoder's downsampling flags:
  the size at the bottleneck must leave more than one element to normalise, and the size
  the mirrored decoder returns to is the bottleneck's, doubled once per halving.
\<close>

fun sizes_ok :: "bool list \<Rightarrow> int \<Rightarrow> bool" where
  "sizes_ok [] h = (2 \<le> h)"
| "sizes_ok (d # ds) h = sizes_ok ds (if d then h div 2 else h)"

fun round_size :: "bool list \<Rightarrow> int \<Rightarrow> int" where
  "round_size [] h = h"
| "round_size (d # ds) h = (if d then round_size ds (h div 2) * 2 else round_size ds h)"

text \<open>
  The configurations of the generator taken as valid: the constructor needs
  \<open>img_size \<ge> 32\<close>; the input stem needs at least one channel, \<open>2 ** 14 // img_size \<ge> 1\<close>;
  the image must halve exactly at each of the \<open>int(log2(img_size)) - 4\<close> downsampling
  stages, as every power of two does; and the style and channel dimensions are positive.
\<close>

definition valid_config :: "int \<Rightarrow> int \<Rightarrow> int \<Rightarrow> bool" where
  "valid_config img_size style_dim max_conv_dim \<longleftrightarrow>
     32 \<le> img_size \<and> img_size \<le> 2 ^ 14
   \<and> 2 ^ nat (ilog2 img_size - 4) dvd img_size
   \<and> 1 \<le> style_dim \<and> 1 \<le> max_conv_dim"

section \<open>Basic facts\<close>

lemma rbind_Inr [simp]: "rbind (Inr v) f = f v"
  by (simp add: rbind_def)

lemma rbind_Inl [simp]: "rbind (Inl e) f = Inl e"
  by (simp add: rbind_def)

lemma rbind_eq_Inr: "rbind m f = Inr r \<longleftrightarrow> (\<exists>v. m = Inr v \<and> f v = Inr r)"
  by (cases m) simp_all

lemma ilog2_nonneg: "0 \<le> ilog2 n"
proof (induction n rule: ilog2.induct)
  case (1 n)
  then show ?case by (subst ilog2.simps) simp
qed

lemma ilog2_bounds: "1 \<le> n \<Longrightarrow> 2 ^ nat (ilog2 n) \<le> n \<and> n < 2 ^ (nat (ilog2 n) + 1)"
proof (induction n rule: ilog2.induct)
  case (1 n)
  show ?case
  proof (cases "n < 2")
    case True
    with 1 have "n = 1" by simp
    then show ?thesis by (subst ilog2.simps, subst (2) ilog2.simps) simp
  next
    case False
    then have "1 \<le> n div 2" by simp
    with 1 False have ih: "2 ^ nat (ilog2 (n div 2)) \<le> n div 2"
      "n div 2 < 2 ^ (nat (ilog2 (n div 2)) + 1)" by simp_all
    have eq: "ilog2 n = 1 + ilog2 (n div 2)" using False by (subst ilog2.simps) simp
    have nn: "nat (1 + ilog2 (n div 2)) = Suc (nat (ilog2 (n div 2)))"
      using ilog2_nonneg [of "n div 2"] by simp
    show ?thesis unfolding eq nn using ih by simp linarith
  qed
qed

lemma ilog2_ge_iff: "1 \<le> n \<Longrightarrow> int k \<le> ilog2 n \<longleftrightarrow> 2 ^ k \<le> n"
proof
  assume n: "1 \<le> n" and k: "int k \<le> ilog2 n"
  then have "k \<le> nat (ilog2 n)" by simp
  then have "(2::int) ^ k \<le> 2 ^ nat (ilog2 n)" by (simp add: power_increasing)
  with ilog2_bounds [OF n] show "2 ^ k \<le> n" by linarith
next
  assume n: "1 \<le> n" and k: "2 ^ k \<le> n"
  with ilog2_bounds [OF n] have "(2::int) ^ k < 2 ^ (nat (ilog2 n) + 1)" by simp
  then have "k < nat (ilog2 n) + 1" by (rule power_less_imp_less_exp [rotated]) simp
  then show "int k \<le> ilog2 n" using ilog2_nonneg [of n] by linarith
qed

lemma neg_size_div: "img_size < 0 \<Longrightarrow> (16384 :: int) div img_size < 0"
  by (simp add: neg_imp_zdiv_neg_iff)

section \<open>Constructors of the blocks\<close>

lemma Conv2d_eq_Inr:
  "Conv2d a b k s p bi = Inr c \<longleftrightarrow>
     0 \<le> a \<and> 0 \<le> b
   \<and> c = \<lparr>in_channels = a, out_channels = b, kernel_size = k, stride = s, padding = p,
           bias = bi\<rparr>"
  by (auto simp: Conv2d_def)

lemma ResBlock_init_dims:
  assumes "ResBlock_init v w sd a ds nm = Inr e"
  shows "rb_dim_in e = v" "rb_dim_out e = w" "rb_downsample e = ds" "rb_normalize e = nm"
    "0 \<le> v" "0 \<le> w" "rb_activ e = a"
  using assms
  by (auto simp: ResBlock_init_def rbind_eq_Inr Conv2d_eq_Inr rb_dim_in_def rb_dim_out_def)

lemma AdaResBlock_init_dims:
  assumes "AdaResBlock_init v w sd a us = Inr d"
  shows "ab_dim_in d = v" "ab_dim_out d = w" "ab_upsample d = us" "0 \<le> v" "0 \<le> w"
    "ab_activ d = a"
  using assms
  by (auto simp: AdaResBlock_init_def rbind_eq_Inr Conv2d_eq_Inr ab_dim_in_def ab_dim_out_def)

lemma ResBlock_init_ok:
  "0 \<le> v \<Longrightarrow> 0 \<le> w \<Longrightarrow> \<exists>e. ResBlock_init v w sd a ds nm = Inr e"
  by (simp add: ResBlock_init_def Conv2d_def InstanceNorm2d_def)

lemma AdaResBlock_init_ok:
  "0 \<le> v \<Longrightarrow> 0 \<le> w \<Longrightarrow> 0 \<le> sd \<Longrightarrow> \<exists>d. AdaResBlock_init v w sd a us = Inr d"
  by (simp add: AdaResBlock_init_def Conv2d_def InstanceNorm2d_def AdaptiveInstanceNorm_init_def
      Linear_def)

section \<open>The loops of the generator's constructor\<close>

lemma enc_chain_append:
  "enc_chain c (xs @ ys) c' \<longleftrightarrow> (\<exists>m. enc_chain c xs m \<and> enc_chain m ys c')"
  by (induction xs arbitrary: c) auto

lemma down_loop_inv:
  "Generator_down_loop n sd m st = Inr st' \<Longrightarrow> gen_inv c0 sd m st \<Longrightarrow>
     gen_inv c0 sd m st'
   \<and> map rb_downsample (gs_encoder st') = map rb_downsample (gs_encoder st) @ replicate n True
   \<and> (if n = 0 then st' = st else gs_dim_out st' = Some (gs_dim_in st'))"
proof (induction n arbitrary: st)
  case 0
  then show ?case by simp
next
  case (Suc n)
  let ?w = "min (gs_dim_in st * 2) m"
  from Suc.prems(1) obtain rb ab where
    rb: "ResBlock_init (gs_dim_in st) ?w 64 (LeakyReLU 0.2) True True = Inr rb" and
    ab: "AdaResBlock_init ?w (gs_dim_in st) sd (LeakyReLU 0.2) True = Inr ab" and
    rest: "Generator_down_loop n sd m
        \<lparr>gs_dim_in = ?w, gs_dim_out = Some ?w,
         gs_encoder = gs_encoder st @ [rb], gs_decoder = ab # gs_decoder st\<rparr> = Inr st'"
    by (auto simp: Let_def rbind_eq_Inr)
  let ?st1 = "\<lparr>gs_dim_in = ?w, gs_dim_out = Some ?w,
         gs_encoder = gs_encoder st @ [rb], gs_decoder = ab # gs_decoder st\<rparr>"
  note d = ResBlock_init_dims [OF rb]
  have inv1: "gen_inv c0 sd m ?st1"
    using Suc.prems(2) ab d
    by (auto simp: gen_inv_def mirrored_def enc_chain_append stage_widths_def)
  from Suc.IH [OF rest inv1] show ?case
    using d by (cases n) (auto simp: replicate_append_same)
qed

lemma bottleneck_loop_inv:
  "Generator_bottleneck_loop n sd st = Inr st' \<Longrightarrow> gen_inv c0 sd m st \<Longrightarrow>
   gs_dim_out st = Some (gs_dim_in st) \<Longrightarrow>
     gen_inv c0 sd m st'
   \<and> map rb_downsample (gs_encoder st') = map rb_downsample (gs_encoder st) @ replicate n False
   \<and> gs_dim_in st' = gs_dim_in st"
proof (induction n arbitrary: st)
  case 0
  then show ?case by simp
next
  case (Suc n)
  let ?c = "gs_dim_in st"
  from Suc.prems(1,3) obtain rb ab where
    rb: "ResBlock_init ?c ?c 64 (LeakyReLU 0.2) False True = Inr rb" and
    ab: "AdaResBlock_init ?c ?c sd (LeakyReLU 0.2) False = Inr ab" and
    rest: "Generator_bottleneck_loop n sd
        (st\<lparr>gs_encoder := gs_encoder st @ [rb], gs_decoder := ab # gs_decoder st\<rparr>) = Inr st'"
    by (auto simp: rbind_eq_Inr read_local_def)
  let ?st1 = "st\<lparr>gs_encoder := gs_encoder st @ [rb], gs_decoder := ab # gs_decoder st\<rparr>"
  note d = ResBlock_init_dims [OF rb]
  have inv1: "gen_inv c0 sd m ?st1"
    using Suc.prems(2) ab d
    by (auto simp: gen_inv_def mirrored_def enc_chain_append stage_widths_def)
  have out1: "gs_dim_out ?st1 = Some (gs_dim_in ?st1)" using Suc.prems(3) by simp
  from Suc.IH [OF rest inv1 out1] show ?case
    using d by (auto simp: replicate_append_same)
qed

lemma down_loop_ok:
  "0 \<le> gs_dim_in st \<Longrightarrow> 0 \<le> sd \<Longrightarrow> 0 \<le> m \<Longrightarrow>
   \<exists>st'. Generator_down_loop n sd m st = Inr st' \<and> 0 \<le> gs_dim_in st'"
proof (induction n arbitrary: st)
  case 0
  then show ?case by simp
next
  case (Suc n)
  let ?w = "min (gs_dim_in st * 2) m"
  from Suc.prems have w: "0 \<le> ?w" by simp
  from ResBlock_init_ok [OF Suc.prems(1) w] obtain rb where
    rb: "ResBlock_init (gs_dim_in st) ?w 64 (LeakyReLU 0.2) True True = Inr rb" by blast
  from AdaResBlock_init_ok [OF w Suc.prems(1,2)] obtain ab where
    ab: "AdaResBlock_init ?w (gs_dim_in st) sd (LeakyReLU 0.2) True = Inr ab" by blast
  have "\<exists>st'. Generator_down_loop n sd m
        \<lparr>gs_dim_in = ?w, gs_dim_out = Some ?w,
         gs_encoder = gs_encoder st @ [rb], gs_decoder = ab # gs_decoder st\<rparr> = Inr st'
        \<and> 0 \<le> gs_dim_in st'"
    using w Suc.prems by (intro Suc.IH) simp_all
  then show ?case using rb ab by (simp add: Let_def)
qed

lemma bottleneck_loop_ok:
  "gs_dim_out st = Some (gs_dim_in st) \<Longrightarrow> 0 \<le> gs_dim_in st \<Longrightarrow> 0 \<le> sd \<Longrightarrow>
   \<exists>st'. Generator_bottleneck_loop n sd st = Inr st'"
proof (induction n arbitrary: st)
  case 0
  then show ?case by simp
next
  case (Suc n)
  let ?c = "gs_dim_in st"
  from ResBlock_init_ok [OF Suc.prems(2,2)] obtain rb where
    rb: "ResBlock_init ?c ?c 64 (LeakyReLU 0.2) False True = Inr rb" by blast
  from AdaResBlock_init_ok [OF Suc.prems(2,2,3)] obtain ab where
    ab: "AdaResBlock_init ?c ?c sd (LeakyReLU 0.2) False = Inr ab" by blast
  have "\<exists>st'. Generator_bottleneck_loop n sd
        (st\<lparr>gs_encoder := gs_encoder st @ [rb], gs_decoder := ab # gs_decoder st\<rparr>) = Inr st'"
    using Suc.prems by (intro Suc.IH) simp_all
  then show ?case using rb ab Suc.prems(1) by (simp add: read_local_def)
qed

lemma mirror_chain:
  "enc_chain c enc c' \<Longrightarrow> list_all2 (mirrored sd) (rev enc) dec \<Longrightarrow>
   chained ((a, c) # map (\<lambda>e. (rb_dim_in e, rb_dim_out e)) enc
              @ map (\<lambda>d. (ab_dim_in d, ab_dim_out d)) dec @ (c, b) # rest)
     = chained ((c, b) # rest)"
proof (induction enc arbitrary: a c b rest dec)
  case Nil
  then show ?case by simp
next
  case (Cons e es)
  from Cons.prems(2) obtain dec' d where
    dec: "dec = dec' @ [d]" and l2: "list_all2 (mirrored sd) (rev es) dec'" and m: "mirrored sd e d"
    by (auto simp: list_all2_append1 list_all2_Cons1)
  from Cons.prems(1) have c: "rb_dim_in e = c" and ch: "enc_chain (rb_dim_out e) es c'" by simp_all
  from m have dd: "ab_dim_in d = rb_dim_out e" "ab_dim_out d = rb_dim_in e"
    by (auto simp: mirrored_def dest: AdaResBlock_init_dims)
  have "chained ((c, rb_dim_out e) # map (\<lambda>e. (rb_dim_in e, rb_dim_out e)) es
              @ map (\<lambda>d. (ab_dim_in d, ab_dim_out d)) dec' @ (rb_dim_out e, c) # (c, b) # rest)
        = chained ((rb_dim_out e, c) # (c, b) # rest)"
    by (rule Cons.IH [OF ch l2])
  then show ?case by (simp add: dec c dd)
qed

lemma Generator_init_Inr:
  assumes "Generator_init img_size style_dim max_conv_dim = Inr g"
  obtains st st' where
    "0 < img_size"
    "Generator_down_loop (nat (ilog2 img_size - 4)) style_dim max_conv_dim
       \<lparr>gs_dim_in = 2 ^ 14 div img_size, gs_dim_out = None, gs_encoder = [], gs_decoder = []\<rparr>
     = Inr st"
    "Generator_bottleneck_loop 2 style_dim st = Inr st'"
    "g_encoder g = gs_encoder st'" "g_decoder g = gs_decoder st'"
    "g_conv_in g = \<lparr>in_channels = 3, out_channels = 2 ^ 14 div img_size, kernel_size = 3,
                     stride = 1, padding = 1, bias = True\<rparr>"
    "g_conv_out g = [M_InstanceNorm2d \<lparr>num_features = 2 ^ 14 div img_size, affine = True\<rparr>,
           M_Activation (LeakyReLU 0.2),
           M_Conv2d \<lparr>in_channels = 2 ^ 14 div img_size, out_channels = 3, kernel_size = 1,
                      stride = 1, padding = 0, bias = True\<rparr>]"
proof -
  have nz: "img_size \<noteq> 0" using assms by (auto simp: Generator_init_def py_floordiv_def)
  have nneg: "\<not> img_size < 0"
    using assms nz neg_size_div [of img_size]
    by (auto simp: Generator_init_def py_floordiv_def Conv2d_def)
  from nz nneg have pos: "0 < img_size" by simp
  with assms that show thesis
    by (auto simp: Generator_init_def py_floordiv_def rbind_eq_Inr Conv2d_eq_Inr
        InstanceNorm2d_def int_np_log2_def Let_def split: if_splits)
qed

lemma Generator_init_inv:
  assumes "Generator_init img_size style_dim max_conv_dim = Inr g"
  shows "list_all2 (mirrored style_dim) (rev (g_encoder g)) (g_decoder g)"
    and "\<exists>c'. enc_chain (2 ^ 14 div img_size) (g_encoder g) c'"
    and "list_all (stage_widths max_conv_dim) (g_encoder g)"
    and "map rb_downsample (g_encoder g)
          = replicate (nat (ilog2 img_size - 4)) True @ replicate 2 False"
    and "0 < nat (ilog2 img_size - 4)"
proof -
  let ?c0 = "2 ^ 14 div img_size"
  let ?st0 = "\<lparr>gs_dim_in = ?c0, gs_dim_out = None, gs_encoder = [], gs_decoder = []\<rparr>"
  from assms obtain st st' where
    pos: "0 < img_size" and
    dl: "Generator_down_loop (nat (ilog2 img_size - 4)) style_dim max_conv_dim ?st0 = Inr st" and
    bl: "Generator_bottleneck_loop 2 style_dim st = Inr st'" and
    g: "g_encoder g = gs_encoder st'" "g_decoder g = gs_decoder st'"
    by (rule Generator_init_Inr)
  have inv0: "gen_inv ?c0 style_dim max_conv_dim ?st0" by (simp add: gen_inv_def)
  note d = down_loop_inv [OF dl inv0]
  show nb: "0 < nat (ilog2 img_size - 4)"
  proof (rule ccontr)
    assume "\<not> 0 < nat (ilog2 img_size - 4)"
    with d have "st = ?st0" by simp
    with bl show False by (simp add: numeral_2_eq_2 read_local_def)
  qed
  with d have out: "gs_dim_out st = Some (gs_dim_in st)"
    and inv: "gen_inv ?c0 style_dim max_conv_dim st"
    and ds: "map rb_downsample (gs_encoder st) = replicate (nat (ilog2 img_size - 4)) True"
    by simp_all
  note b = bottleneck_loop_inv [OF bl inv out]
  from b show "list_all2 (mirrored style_dim) (rev (g_encoder g)) (g_decoder g)"
    by (simp add: gen_inv_def g)
  from b show "\<exists>c'. enc_chain ?c0 (g_encoder g) c'" by (auto simp: gen_inv_def g)
  from b show "list_all (stage_widths max_conv_dim) (g_encoder g)" by (simp add: gen_inv_def g)
  from b ds show "map rb_downsample (g_encoder g)
      = replicate (nat (ilog2 img_size - 4)) True @ replicate 2 False"
    by (simp add: g)
qed

lemma Generator_init_ok:
  assumes "32 \<le> img_size" "0 \<le> style_dim" "0 \<le> max_conv_dim"
  shows "\<exists>g. Generator_init img_size style_dim max_conv_dim = Inr g"
proof -
  let ?c0 = "2 ^ 14 div img_size"
  let ?st0 = "\<lparr>gs_dim_in = ?c0, gs_dim_out = None, gs_encoder = [], gs_decoder = []\<rparr>"
  have c0: "0 \<le> ?c0" using assms by (simp add: pos_imp_zdiv_nonneg_iff)
  have nb: "0 < nat (ilog2 img_size - 4)" using assms ilog2_ge_iff [of img_size 5] by simp
  from down_loop_ok [of ?st0 style_dim max_conv_dim] c0 assms obtain st where
    st: "Generator_down_loop (nat (ilog2 img_size - 4)) style_dim max_conv_dim ?st0 = Inr st"
    and st_nn: "0 \<le> gs_dim_in st"
    by auto
  have inv0: "gen_inv ?c0 style_dim max_conv_dim ?st0" by (simp add: gen_inv_def)
  from down_loop_inv [OF st inv0] nb have out: "gs_dim_out st = Some (gs_dim_in st)" by simp
  from bottleneck_loop_ok [OF out st_nn assms(2)] obtain st' where
    "Generator_bottleneck_loop 2 style_dim st = Inr st'" by blast
  with st c0 assms show ?thesis
    by (simp add: Generator_init_def py_floordiv_def Conv2d_def InstanceNorm2d_def int_np_log2_def)
qed

lemma Generator_small:
  assumes "0 < img_size" "img_size < 32"
  shows "ilog2 img_size - 4 < 1"
    "Generator_init img_size style_dim max_conv_dim = Inl (UnboundLocalError ''dim_out'')"
proof -
  have "\<not> int 5 \<le> ilog2 img_size" using assms ilog2_ge_iff [of img_size 5] by simp
  then show "ilog2 img_size - 4 < 1" by simp
  then have nb: "nat (ilog2 img_size - 4) = 0" by simp
  have d: "0 \<le> (16384::int) div img_size" using assms by (simp add: pos_imp_zdiv_nonneg_iff)
  show "Generator_init img_size style_dim max_conv_dim = Inl (UnboundLocalError ''dim_out'')"
    using assms d
    by (simp add: Generator_init_def py_floordiv_def Conv2d_def InstanceNorm2d_def
        int_np_log2_def nb read_local_def numeral_2_eq_2)
qed

lemma Generator_large:
  assumes "Generator_init img_size style_dim max_conv_dim = Inr g"
  shows "1 \<le> ilog2 img_size - 4" "32 \<le> img_size"
proof -
  have pos: "0 < img_size" using assms by (rule Generator_init_Inr)
  show "32 \<le> img_size"
  proof (rule ccontr)
    assume "\<not> 32 \<le> img_size"
    with pos Generator_small(2) [of img_size style_dim max_conv_dim] assms show False by simp
  qed
  then show "1 \<le> ilog2 img_size - 4" using ilog2_ge_iff [of img_size 5] by simp
qed

section \<open>The loop of the discriminator's and the style encoder's constructors\<close>

lemma pyramid_small:
  assumes "0 < img_size" "img_size < 8"
  shows "ilog2 img_size - 2 < 1"
    "Discriminator_init img_size num_domains max_conv_dim = Inl (UnboundLocalError ''dim_out'')"
    "StyleEncoder_init img_size style_dim num_domains max_conv_dim
      = Inl (UnboundLocalError ''dim_out'')"
proof -
  have "\<not> int 3 \<le> ilog2 img_size" using assms ilog2_ge_iff [of img_size 3] by simp
  then show "ilog2 img_size - 2 < 1" by simp
  then have nb: "nat (ilog2 img_size - 2) = 0" by simp
  have d: "0 \<le> (16384::int) div img_size" using assms by (simp add: pos_imp_zdiv_nonneg_iff)
  show "Discriminator_init img_size num_domains max_conv_dim = Inl (UnboundLocalError ''dim_out'')"
    using assms d
    by (simp add: Discriminator_init_def py_floordiv_def Conv2d_def int_np_log2_def nb
        read_local_def)
  show "StyleEncoder_init img_size style_dim num_domains max_conv_dim
      = Inl (UnboundLocalError ''dim_out'')"
    using assms d
    by (simp add: StyleEncoder_init_def py_floordiv_def Conv2d_def int_np_log2_def nb
        read_local_def)
qed

lemma pyramid_large:
  assumes "Discriminator_init img_size num_domains max_conv_dim = Inr d
         \<or> StyleEncoder_init img_size style_dim num_domains max_conv_dim = Inr e"
  shows "1 \<le> ilog2 img_size - 2" "8 \<le> img_size"
proof -
  have "img_size \<noteq> 0" using assms
    by (auto simp: Discriminator_init_def StyleEncoder_init_def py_floordiv_def)
  moreover have "\<not> img_size < 0" using assms neg_size_div [of img_size]
    by (auto simp: Discriminator_init_def StyleEncoder_init_def py_floordiv_def Conv2d_def)
  ultimately have pos: "0 < img_size" by simp
  show "8 \<le> img_size"
  proof (rule ccontr)
    assume "\<not> 8 \<le> img_size"
    with pos pyramid_small(2,3) [of img_size] assms show False by auto
  qed
  then show "1 \<le> ilog2 img_size - 2" using ilog2_ge_iff [of img_size 3] by simp
qed

lemma rmap_const: "f = Inr v \<Longrightarrow> rmap (\<lambda>_. f) xs = Inr (map (\<lambda>_. v) xs)"
  by (induction xs) simp_all

lemma pyramid_loop_ok:
  "0 \<le> ps_dim_in st \<Longrightarrow> 0 \<le> m \<Longrightarrow>
   \<exists>st'. pyramid_loop n m st = Inr st' \<and> 0 \<le> ps_dim_in st'
       \<and> (if n = 0 then st' = st else ps_dim_out st' = Some (ps_dim_in st'))"
proof (induction n arbitrary: st)
  case 0
  then show ?case by simp
next
  case (Suc n)
  let ?w = "min (ps_dim_in st * 2) m"
  from Suc.prems have w: "0 \<le> ?w" by simp
  from ResBlock_init_ok [OF Suc.prems(1) w] obtain rb where
    rb: "ResBlock_init (ps_dim_in st) ?w 64 (LeakyReLU 0.2) True False = Inr rb" by blast
  let ?st1 = "\<lparr>ps_dim_in = ?w, ps_dim_out = Some ?w, ps_blocks = ps_blocks st @ [M_ResBlock rb]\<rparr>"
  have "\<exists>st'. pyramid_loop n m ?st1 = Inr st' \<and> 0 \<le> ps_dim_in st'
       \<and> (if n = 0 then st' = ?st1 else ps_dim_out st' = Some (ps_dim_in st'))"
    using w Suc.prems by (intro Suc.IH) simp_all
  then show ?case using rb by (cases n) (auto simp: Let_def)
qed

lemma Discriminator_init_ok:
  assumes "8 \<le> img_size" "0 \<le> num_domains" "0 \<le> max_conv_dim"
  shows "\<exists>d. Discriminator_init img_size num_domains max_conv_dim = Inr d"
proof -
  let ?c0 = "2 ^ 14 div img_size"
  let ?st0 = "\<lparr>ps_dim_in = ?c0, ps_dim_out = None,
      ps_blocks = [M_Conv2d \<lparr>in_channels = 3, out_channels = ?c0, kernel_size = 3,
                     stride = 1, padding = 1, bias = True\<rparr>]\<rparr>"
  have c0: "0 \<le> ?c0" using assms by (simp add: pos_imp_zdiv_nonneg_iff)
  have nb: "nat (ilog2 img_size - 2) \<noteq> 0" using assms ilog2_ge_iff [of img_size 3] by simp
  from pyramid_loop_ok [of ?st0 max_conv_dim "nat (ilog2 img_size - 2)"] c0 assms nb
  obtain st where
    st: "pyramid_loop (nat (ilog2 img_size - 2)) max_conv_dim ?st0 = Inr st"
    and st_nn: "0 \<le> ps_dim_in st" and out: "ps_dim_out st = Some (ps_dim_in st)"
    by auto
  with c0 assms show ?thesis
    by (simp add: Discriminator_init_def py_floordiv_def Conv2d_def int_np_log2_def
        read_local_def)
qed

lemma StyleEncoder_init_ok:
  assumes "8 \<le> img_size" "0 \<le> style_dim" "0 \<le> max_conv_dim"
  shows "\<exists>e. StyleEncoder_init img_size style_dim num_domains max_conv_dim = Inr e"
proof -
  let ?c0 = "2 ^ 14 div img_size"
  let ?st0 = "\<lparr>ps_dim_in = ?c0, ps_dim_out = None,
      ps_blocks = [M_Conv2d \<lparr>in_channels = 3, out_channels = ?c0, kernel_size = 3,
                     stride = 1, padding = 1, bias = True\<rparr>]\<rparr>"
  have c0: "0 \<le> ?c0" using assms by (simp add: pos_imp_zdiv_nonneg_iff)
  have nb: "nat (ilog2 img_size - 2) \<noteq> 0" using assms ilog2_ge_iff [of img_size 3] by simp
  from pyramid_loop_ok [of ?st0 max_conv_dim "nat (ilog2 img_size - 2)"] c0 assms nb
  obtain st where
    st: "pyramid_loop (nat (ilog2 img_size - 2)) max_conv_dim ?st0 = Inr st"
    and st_nn: "0 \<le> ps_dim_in st" and out: "ps_dim_out st = Some (ps_dim_in st)"
    by auto
  have "Linear (ps_dim_in st) style_dim
      = Inr \<lparr>in_features = ps_dim_in st, out_features = style_dim\<rparr>"
    using st_nn assms by (simp add: Linear_def)
  from rmap_const [OF this, of "[0..<nat num_domains]"] st out st_nn c0 assms show ?thesis
    by (simp add: StyleEncoder_init_def py_floordiv_def Conv2d_def int_np_log2_def
        read_local_def)
qed

section \<open>Shapes of the layers and of a residual block\<close>


lemma shape_tensor_map [simp]: "shape (tensor_map f t) = shape t"
  by (simp add: tensor_map_def)

lemma elem_tensor_map [simp]: "elem (tensor_map f t) idx = f (elem t idx)"
  by (simp add: tensor_map_def)

lemma conv2d_forward_ok:
  assumes "shape x = [b, ch, h, w]" "ch = in_channels c" "0 < stride c"
    "kernel_size c \<le> h + 2 * padding c" "kernel_size c \<le> w + 2 * padding c"
    "0 \<le> padding c" "1 \<le> out_channels c"
  shows "conv2d_forward K c x =
     Inr \<lparr>shape = [b, out_channels c, (h + 2 * padding c - kernel_size c) div stride c + 1,
                   (w + 2 * padding c - kernel_size c) div stride c + 1],
          elem = k_conv2d K c x\<rparr>"
  using assms by (simp add: conv2d_forward_def conv2d_out_def)

lemma instance_norm_forward_ok:
  assumes "shape x = [b, ch, h, w]" "affine n \<Longrightarrow> ch = num_features n" "h * w \<noteq> 1"
    "affine n \<Longrightarrow> b \<noteq> 0 \<and> ch \<noteq> 0"
  shows "instance_norm_forward K n x = Inr \<lparr>shape = [b, ch, h, w], elem = k_instance_norm K n x\<rparr>"
  using assms by (auto simp: instance_norm_forward_def instance_norm_check_def)

lemma avg_pool2d_ok:
  assumes "shape x = [b, ch, h, w]" "2 \<le> h" "2 \<le> w"
  shows "\<exists>t. avg_pool2d x 2 = Inr t \<and> shape t = [b, ch, h div 2, w div 2]"
proof -
  from assms have "1 \<le> h div 2" "1 \<le> w div 2" by simp_all
  with assms(1) show ?thesis by simp
qed

lemma interpolate_nearest_ok:
  assumes "shape x = [b, ch, h, w]"
  shows "\<exists>t. interpolate_nearest x 2 = Inr t \<and> shape t = [b, ch, h * 2, w * 2]"
  using assms by (simp add: interpolate_nearest_def)

lemma broadcast_rev_same: "broadcast_rev xs xs = Some xs"
  by (induction xs) simp_all

lemma broadcast_shapes_same [simp]: "broadcast_shapes sh sh = Some sh"
  by (simp add: broadcast_shapes_def broadcast_rev_same)

lemma tensor_add_same:
  assumes "shape a = shape b"
  shows "\<exists>t. tensor_add a b = Inr t \<and> shape t = shape a"
  using assms by (simp add: tensor_add_def tensor_binop_def)

lemma ResBlock_init_eq:
  "ResBlock_init v w sd a ds nm = Inr blk \<longleftrightarrow>
     0 \<le> v \<and> 0 \<le> w
   \<and> blk = \<lparr>rb_activ = a, rb_downsample = ds, rb_shortcut = (v \<noteq> w), rb_normalize = nm,
       rb_conv_1 = \<lparr>in_channels = v, out_channels = v, kernel_size = 3, stride = 1,
                     padding = 1, bias = True\<rparr>,
       rb_conv_2 = \<lparr>in_channels = v, out_channels = w, kernel_size = 3, stride = 1,
                     padding = 1, bias = True\<rparr>,
       rb_norm_1 = (if nm then Some \<lparr>num_features = v, affine = True\<rparr> else None),
       rb_norm_2 = (if nm then Some \<lparr>num_features = v, affine = True\<rparr> else None),
       rb_conv_1x1 = (if v \<noteq> w
                      then Some \<lparr>in_channels = v, out_channels = w, kernel_size = 1, stride = 1,
                                  padding = 0, bias = False\<rparr>
                      else None)\<rparr>"
  by (auto simp: ResBlock_init_def Conv2d_def InstanceNorm2d_def)

lemma ResBlock_shortcut_shape:
  assumes "ResBlock_init v w sd a ds nm = Inr blk" "shape x = [b, v, h, wd]"
    "2 \<le> (if ds then h div 2 else h)" "2 \<le> (if ds then wd div 2 else wd)"
    "1 \<le> v" "1 \<le> w" "1 \<le> b"
  shows "\<exists>t. ResBlock_shortcut K blk x = Inr t
     \<and> shape t = [b, w, if ds then h div 2 else h, if ds then wd div 2 else wd]"
proof -
  from assms(1) have blk: "rb_shortcut blk = (v \<noteq> w)" "rb_downsample blk = ds"
    "rb_conv_1x1 blk = (if v \<noteq> w
                      then Some \<lparr>in_channels = v, out_channels = w, kernel_size = 1, stride = 1,
                                  padding = 0, bias = False\<rparr>
                      else None)"
    by (simp_all add: ResBlock_init_eq)
  from assms(3,4) have hw: "1 \<le> h" "1 \<le> wd" by (auto split: if_splits)
  obtain t1 where t1: "(if rb_shortcut blk
            then rbind (get_attr ''conv_1x1'' (rb_conv_1x1 blk))
                   (\<lambda>c. conv2d_forward (k_sub K (Attr ''conv_1x1'')) c x)
            else Inr x) = Inr t1" "shape t1 = [b, w, h, wd]"
    using assms(2,6) hw
    by (cases "v = w") (simp_all add: blk get_attr_def conv2d_forward_def conv2d_out_def)
  show ?thesis
  proof (cases ds)
    case True
    with assms(3,4) have "2 \<le> h" "2 \<le> wd" by simp_all
    from avg_pool2d_ok [OF t1(2) this] True t1(1) show ?thesis
      unfolding ResBlock_shortcut_def blk(2) by simp
  next
    case False
    with t1 show ?thesis unfolding ResBlock_shortcut_def blk(2) by simp
  qed
qed


lemma activation_forward_ok [simp]:
  "activation_forward a x = Inr (tensor_map (activation_fn a) x)"
  by (simp add: activation_forward_def)

lemma ResBlock_residual_shape:
  assumes "ResBlock_init v w sd a ds nm = Inr blk" "shape x = [b, v, h, wd]"
    "2 \<le> (if ds then h div 2 else h)" "2 \<le> (if ds then wd div 2 else wd)"
    "1 \<le> v" "1 \<le> w" "1 \<le> b"
  shows "\<exists>t. ResBlock_residual K blk x = Inr t
     \<and> shape t = [b, w, if ds then h div 2 else h, if ds then wd div 2 else wd]"
proof -
  let ?h = "if ds then h div 2 else h" and ?w = "if ds then wd div 2 else wd"
  from assms(1) have blk: "rb_normalize blk = nm" "rb_downsample blk = ds" "rb_activ blk = a"
    "rb_conv_1 blk = \<lparr>in_channels = v, out_channels = v, kernel_size = 3, stride = 1,
                     padding = 1, bias = True\<rparr>"
    "rb_conv_2 blk = \<lparr>in_channels = v, out_channels = w, kernel_size = 3, stride = 1,
                     padding = 1, bias = True\<rparr>"
    "rb_norm_1 blk = (if nm then Some \<lparr>num_features = v, affine = True\<rparr> else None)"
    "rb_norm_2 blk = (if nm then Some \<lparr>num_features = v, affine = True\<rparr> else None)"
    by (simp_all add: ResBlock_init_eq)
  from assms(3,4) have hw: "2 \<le> h" "2 \<le> wd" by (auto split: if_splits)
  then have "2 * 2 \<le> h * wd" by (intro mult_mono) simp_all
  then have hw1: "h * wd \<noteq> 1" by simp
  from assms(3,4) have "2 * 2 \<le> ?h * ?w" by (intro mult_mono) simp_all
  then have hw2: "?h * ?w \<noteq> 1" by simp
  obtain t1 where t1: "(if rb_normalize blk
            then rbind (get_attr ''norm_1'' (rb_norm_1 blk))
                   (\<lambda>n. instance_norm_forward (k_sub K (Attr ''norm_1'')) n x)
            else Inr x) = Inr t1" "shape t1 = [b, v, h, wd]"
    using assms(2,5,7) hw1
    by (cases nm)
       (simp_all add: blk get_attr_def instance_norm_forward_def instance_norm_check_def)
  let ?t2 = "tensor_map (activation_fn a) t1"
  have t2: "shape ?t2 = [b, v, h, wd]" using t1 by simp
  obtain t3 where t3: "conv2d_forward (k_sub K (Attr ''conv_1'')) (rb_conv_1 blk) ?t2 = Inr t3"
    "shape t3 = [b, v, h, wd]"
    using t2 hw assms(5) by (simp add: conv2d_forward_def conv2d_out_def blk)
  obtain t4 where t4: "(if rb_downsample blk then avg_pool2d t3 2 else Inr t3) = Inr t4"
    "shape t4 = [b, v, ?h, ?w]"
  proof (cases ds)
    case True
    with avg_pool2d_ok [OF t3(2) hw] that show thesis by (auto simp: blk)
  next
    case False
    with t3 that show thesis by (simp add: blk)
  qed
  obtain t5 where t5: "(if rb_normalize blk
            then rbind (get_attr ''norm_2'' (rb_norm_2 blk))
                   (\<lambda>n. instance_norm_forward (k_sub K (Attr ''norm_2'')) n t4)
            else Inr t4) = Inr t5" "shape t5 = [b, v, ?h, ?w]"
    using t4(2) hw2 assms(5,7)
    by (cases nm)
       (simp_all add: blk get_attr_def instance_norm_forward_def instance_norm_check_def)
  let ?t6 = "tensor_map (activation_fn a) t5"
  have t6: "shape ?t6 = [b, v, ?h, ?w]" using t5 by simp
  obtain t7 where t7: "conv2d_forward (k_sub K (Attr ''conv_2'')) (rb_conv_2 blk) ?t6 = Inr t7"
    "shape t7 = [b, w, ?h, ?w]"
    using t6 assms(3,4,6) by (simp add: conv2d_forward_def conv2d_out_def blk)
  show ?thesis
    unfolding ResBlock_residual_def using t1(1) t3(1) t4(1) t5(1) t7 by (simp add: blk)
qed

lemma ResBlock_forward_shape:
  assumes "ResBlock_init v w sd a ds nm = Inr blk" "shape x = [b, v, h, wd]"
    "2 \<le> (if ds then h div 2 else h)" "2 \<le> (if ds then wd div 2 else wd)"
    "1 \<le> v" "1 \<le> w" "1 \<le> b"
  shows "\<exists>t. ResBlock_forward K blk x = Inr t
     \<and> shape t = [b, w, if ds then h div 2 else h, if ds then wd div 2 else wd]"
proof -
  from ResBlock_residual_shape [OF assms] obtain r where
    r: "ResBlock_residual K blk x = Inr r"
    "shape r = [b, w, if ds then h div 2 else h, if ds then wd div 2 else wd]" by blast
  from ResBlock_shortcut_shape [OF assms] obtain s where
    s: "ResBlock_shortcut K blk x = Inr s"
    "shape s = [b, w, if ds then h div 2 else h, if ds then wd div 2 else wd]" by blast
  from r(2) s(2) have "shape r = shape s" by simp
  from tensor_add_same [OF this] obtain t where "tensor_add r s = Inr t" "shape t = shape r"
    by blast
  with r s show ?thesis by (simp add: ResBlock_forward_def tensor_div_scalar_def)
qed

section \<open>Adaptive instance normalisation\<close>


lemma AdaptiveInstanceNorm_init_eq:
  "AdaptiveInstanceNorm_init sd nf = Inr a \<longleftrightarrow>
     0 \<le> sd \<and> 0 \<le> nf
   \<and> a = \<lparr>ain_norm = \<lparr>num_features = nf, affine = False\<rparr>,
           ain_fc = \<lparr>in_features = sd, out_features = nf * 2\<rparr>\<rparr>"
  by (auto simp: AdaptiveInstanceNorm_init_def InstanceNorm2d_def Linear_def)

lemma chunk_halves:
  assumes "shape h = [B, nf * 2, 1, 1]" "0 \<le> nf"
  shows "chunk h 2 1 = Inr [narrow h 1 0 nf, narrow h 1 nf nf]"
proof (cases "nf = 0")
  case True
  with assms show ?thesis by (simp add: chunk_def numeral_2_eq_2)
next
  case False
  with assms have pos: "0 < nf" by simp
  have split: "(nf * 2 + 2 - 1) div 2 = nf" by simp
  have num: "(3 * nf - 1) div nf = 2"
    using pos by (intro int_div_pos_eq [where r = "nf - 1"]) simp_all
  have upt: "[0..<2] = [0, Suc 0]" by (simp add: upt_rec)
  from assms pos show ?thesis
    by (simp add: chunk_def split num upt Let_def del: upt_Suc)
qed

lemma ravel_4: "ravel [d0, d1, d2, d3] [b, c, i, j] = ((b * d1 + c) * d2 + i) * d3 + j"
  by (simp add: ravel_def)

lemma unravel_2: "unravel [d0, d1] k = [k div d1, k mod d1]"
  by simp

lemma view_4:
  assumes "shape h = [B, n]" "0 \<le> B" "0 \<le> n"
  shows "view h [B, n, 1, 1]
     = Inr \<lparr>shape = [B, n, 1, 1],
            elem = (\<lambda>idx. elem h (unravel [B, n] (ravel [B, n, 1, 1] idx)))\<rparr>"
  using assms by (simp add: view_def view_shape_def)


lemma broadcast_1_full: "broadcast_shapes [B, C, 1, 1] [B, C, H, W] = Some [B, C, H, W]"
  by (simp add: broadcast_shapes_def)

lemma broadcast_full_1: "broadcast_shapes [B, C, H, W] [B, C, 1, 1] = Some [B, C, H, W]"
  by (simp add: broadcast_shapes_def)

lemma broadcast_index_full:
  assumes "0 \<le> b" "b < B" "0 \<le> c" "c < C" "0 \<le> i" "i < H" "0 \<le> j" "j < W"
  shows "broadcast_index [B, C, H, W] [b, c, i, j] = [b, c, i, j]"
  using assms by (auto simp: broadcast_index_def)

lemma broadcast_index_1:
  assumes "0 \<le> b" "b < B" "0 \<le> c" "c < C"
  shows "broadcast_index [B, C, 1, 1] [b, c, i, j] = [b, c, 0, 0]"
  using assms by (auto simp: broadcast_index_def)

lemma div_mod_row:
  assumes "0 \<le> c" "c < (n::int)"
  shows "(b * n + c) div n = b" "(b * n + c) mod n = c"
  using assms by (simp_all add: div_pos_pos_trivial)

lemma unpack2_pair: "unpack2 [g, b] = Inr (g, b)"
  by (simp add: unpack2_def)

lemma AdaptiveInstanceNorm_forward_steps:
  assumes "AdaptiveInstanceNorm_init style_dim nf = Inr a"
    "shape s = [B, style_dim]" "0 \<le> B"
  shows "\<exists>h1. shape h1 = [B, nf * 2, 1, 1]
    \<and> (\<forall>b c. 0 \<le> c \<longrightarrow> c < nf * 2 \<longrightarrow>
          elem h1 [b, c, 0, 0] = k_linear K (ain_fc a) s [b, c])
    \<and> (\<forall>x. AdaptiveInstanceNorm_forward K a x s =
          rbind (instance_norm_forward K (ain_norm a) x) (\<lambda>n.
          rbind (tensor_mul (scalar_add 1 (narrow h1 1 0 nf)) n) (\<lambda>m.
          tensor_add m (narrow h1 1 nf nf))))"
proof -
  from assms(1) have a: "0 \<le> style_dim" "0 \<le> nf"
    "ain_fc a = \<lparr>in_features = style_dim, out_features = nf * 2\<rparr>"
    by (simp_all add: AdaptiveInstanceNorm_init_eq)
  define h0 where "h0 = \<lparr>shape = [B, nf * 2], elem = k_linear K (ain_fc a) s\<rparr>"
  have h0: "linear_forward K (ain_fc a) s = Inr h0"
    using assms(2) by (simp add: linear_forward_def linear_shape_def a(3) h0_def)
  have sh0: "shape h0 = [B, nf * 2]" by (simp add: h0_def)
  have sz: "size_at h0 0 = Inr B" "size_at h0 1 = Inr (nf * 2)"
    by (simp_all add: size_at_def sh0)
  define h1 where "h1 = \<lparr>shape = [B, nf * 2, 1, 1],
            elem = (\<lambda>idx. elem h0 (unravel [B, nf * 2] (ravel [B, nf * 2, 1, 1] idx)))\<rparr>"
  have h1: "view h0 [B, nf * 2, 1, 1] = Inr h1"
    unfolding h1_def using sh0 assms(3) a(2) by (intro view_4) simp_all
  have sh1: "shape h1 = [B, nf * 2, 1, 1]" by (simp add: h1_def)
  have ch: "chunk h1 2 1 = Inr [narrow h1 1 0 nf, narrow h1 1 nf nf]"
    using sh1 a(2) by (rule chunk_halves)
  have el: "elem h1 [b, c, 0, 0] = k_linear K (ain_fc a) s [b, c]"
    if "0 \<le> c" "c < nf * 2" for b c
    using that by (simp add: h1_def h0_def ravel_4 div_mod_row)
  have fw: "AdaptiveInstanceNorm_forward K a x s =
       rbind (instance_norm_forward K (ain_norm a) x) (\<lambda>n.
       rbind (tensor_mul (scalar_add 1 (narrow h1 1 0 nf)) n) (\<lambda>m.
       tensor_add m (narrow h1 1 nf nf)))" for x
    unfolding AdaptiveInstanceNorm_forward_def
    by (simp only: h0 rbind_Inr sz h1 ch unpack2_pair split_conv)
  from sh1 el fw show ?thesis by (intro exI [of _ h1]) simp
qed


lemma shape_narrow [simp]: "shape (narrow t k st len) = (shape t)[k := len]"
  by (simp add: narrow_def)

lemma elem_narrow [simp]: "elem (narrow t k st len) idx = elem t (idx[k := idx ! k + st])"
  by (simp add: narrow_def)

lemma shape_scalar_add [simp]: "shape (scalar_add r t) = shape t"
  by (simp add: scalar_add_def)

lemma elem_scalar_add [simp]: "elem (scalar_add r t) idx = r + elem t idx"
  by (simp add: scalar_add_def)

section \<open>The two paths of a residual block\<close>


lemma broadcast_index_valid:
  assumes "valid_index sh idx"
  shows "broadcast_index sh idx = idx"
proof -
  from assms have l: "list_all2 (\<lambda>i d. 0 \<le> i \<and> i < d) idx sh" by (simp add: valid_index_def)
  then have len: "length idx = length sh" by (rule list_all2_lengthD)
  from l have "map2 (\<lambda>d i. if d = 1 then 0 else i) sh idx = idx"
    by (induction idx sh rule: list_all2_induct) auto
  with len show ?thesis by (simp add: broadcast_index_def)
qed

lemma conv2d_forward_Inr:
  assumes "conv2d_forward K c x = Inr t" "shape x = [b, ch, h, w]"
  shows "ch = in_channels c \<and> 1 \<le> out_channels c
     \<and> shape t = [b, out_channels c, (h + 2 * padding c - kernel_size c) div stride c + 1,
                (w + 2 * padding c - kernel_size c) div stride c + 1]"
  using assms
  by (auto simp: conv2d_forward_def conv2d_out_def rbind_eq_Inr split: if_splits)

lemma instance_norm_forward_Inr:
  assumes "instance_norm_forward K n x = Inr t"
  shows "shape t = shape x"
  using assms
  by (cases "(n, shape x)" rule: instance_norm_shape.cases)
     (auto simp: instance_norm_forward_def rbind_eq_Inr split: if_splits)

lemma avg_pool2d_Inr:
  assumes "avg_pool2d x 2 = Inr t" "shape x = [b, c, h, w]"
  shows "shape t = [b, c, h div 2, w div 2]"
  using assms by (auto split: if_splits)

lemma ResBlock_paths_spec:
  assumes "ResBlock_init dim_in dim_out style_dim (LeakyReLU 0.2) downsample normalise = Inr blk"
  shows "ResBlock_residual K blk x = spec_residual_path K dim_in dim_out downsample normalise x"
    and "ResBlock_shortcut K blk x = spec_shortcut_path K dim_in dim_out downsample x"
  using assms
  by (auto simp: ResBlock_init_eq ResBlock_residual_def ResBlock_shortcut_def
      spec_residual_path_def spec_shortcut_path_def get_attr_def)


lemma spec_residual_path_Inr:
  assumes "spec_residual_path K v w ds nm x = Inr r" "shape x = [b, c, h, wd]"
  shows "c = v
     \<and> shape r = [b, w, if ds then h div 2 else h, if ds then wd div 2 else wd]"
proof -
  let ?c1 = "\<lparr>in_channels = v, out_channels = v, kernel_size = 3, stride = 1, padding = 1,
              bias = True\<rparr>"
  let ?c2 = "\<lparr>in_channels = v, out_channels = w, kernel_size = 3, stride = 1, padding = 1,
              bias = True\<rparr>"
  let ?n = "\<lparr>num_features = v, affine = True\<rparr>"
  from assms(1) obtain t1 t3 t4 t5 where
    t1: "(if nm then instance_norm_forward (k_sub K (Attr ''norm_1'')) ?n x else Inr x)
         = Inr t1" and
    t3: "conv2d_forward (k_sub K (Attr ''conv_1'')) ?c1
           (tensor_map (activation_fn (LeakyReLU 0.2)) t1) = Inr t3" and
    t4: "(if ds then avg_pool2d t3 2 else Inr t3) = Inr t4" and
    t5: "(if nm then instance_norm_forward (k_sub K (Attr ''norm_2'')) ?n t4 else Inr t4)
         = Inr t5" and
    t7: "conv2d_forward (k_sub K (Attr ''conv_2'')) ?c2
           (tensor_map (activation_fn (LeakyReLU 0.2)) t5) = Inr r"
    unfolding spec_residual_path_def by (auto simp: rbind_eq_Inr)
  from t1 have s1: "shape t1 = shape x"
    by (auto dest: instance_norm_forward_Inr split: if_splits)
  with assms(2) have s2: "shape (tensor_map (activation_fn (LeakyReLU 0.2)) t1) = [b, c, h, wd]"
    by simp
  from conv2d_forward_Inr [OF t3 s2] have c: "c = v" and s3: "shape t3 = [b, v, h, wd]"
    by simp_all
  from t4 s3 have s4: "shape t4 = [b, v, if ds then h div 2 else h, if ds then wd div 2 else wd]"
    by (auto dest: avg_pool2d_Inr split: if_splits)
  from t5 have s5: "shape t5 = shape t4"
    by (auto dest: instance_norm_forward_Inr split: if_splits)
  with s4 have s6: "shape (tensor_map (activation_fn (LeakyReLU 0.2)) t5)
      = [b, v, if ds then h div 2 else h, if ds then wd div 2 else wd]" by simp
  from conv2d_forward_Inr [OF t7 s6]
  have "shape r = [b, w, if ds then h div 2 else h, if ds then wd div 2 else wd]"
    by (cases ds) simp_all
  with c show ?thesis by simp
qed

lemma spec_shortcut_path_Inr:
  assumes "spec_shortcut_path K v w ds x = Inr s" "shape x = [b, v, h, wd]"
  shows "shape s = [b, w, if ds then h div 2 else h, if ds then wd div 2 else wd]"
proof -
  let ?c = "\<lparr>in_channels = v, out_channels = w, kernel_size = 1, stride = 1, padding = 0,
              bias = False\<rparr>"
  from assms(1) obtain t1 where
    t1: "(if v \<noteq> w then conv2d_forward (k_sub K (Attr ''conv_1x1'')) ?c x else Inr x) = Inr t1"
    and t2: "(if ds then avg_pool2d t1 2 else Inr t1) = Inr s"
    unfolding spec_shortcut_path_def by (auto simp: rbind_eq_Inr)
  have s1: "shape t1 = [b, w, h, wd]"
  proof (cases "v = w")
    case True
    with t1 assms(2) show ?thesis by simp
  next
    case False
    with t1 have "conv2d_forward (k_sub K (Attr ''conv_1x1'')) ?c x = Inr t1" by simp
    from conv2d_forward_Inr [OF this assms(2)] show ?thesis by simp
  qed
  with t2 show ?thesis by (auto dest: avg_pool2d_Inr split: if_splits)
qed

section \<open>Gathering by domain index\<close>


lemma rmap_eq_Inr_map:
  "(\<And>x. x \<in> set xs \<Longrightarrow> f x = Inr (g x)) \<Longrightarrow> rmap f xs = Inr (map g xs)"
  by (induction xs) simp_all

lemma rmap_Inl:
  "(\<And>x. x \<in> set xs \<Longrightarrow> f x = Inl e \<or> (\<exists>v. f x = Inr v)) \<Longrightarrow>
   \<exists>x \<in> set xs. f x = Inl e \<Longrightarrow> rmap f xs = Inl e"
proof (induction xs)
  case Nil
  then show ?case by simp
next
  case (Cons a xs)
  show ?case
  proof (cases "f a")
    case (Inl e')
    with Cons.prems(1) [of a] show ?thesis by simp
  next
    case (Inr v)
    with Cons.prems have ex: "\<exists>x \<in> set xs. f x = Inl e" by auto
    have "rmap f xs = Inl e" using Cons.prems(1) ex by (intro Cons.IH) auto
    with Inr show ?thesis by simp
  qed
qed

lemma wrap_index_cases:
  "wrap_index n i = (if - n \<le> i \<and> i < n then Inr (if i < 0 then i + n else i) else Inl IndexError)"
  by (simp add: wrap_index_def)

lemma rmap_wrap_index:
  "rmap (wrap_index n) ys =
     (if list_all (\<lambda>v. - n \<le> v \<and> v < n) ys
      then Inr (map (\<lambda>v. if v < 0 then v + n else v) ys)
      else Inl IndexError)"
proof (cases "list_all (\<lambda>v. - n \<le> v \<and> v < n) ys")
  case True
  then have "rmap (wrap_index n) ys = Inr (map (\<lambda>v. if v < 0 then v + n else v) ys)"
    by (intro rmap_eq_Inr_map) (auto simp: list_all_iff wrap_index_cases)
  with True show ?thesis by simp
next
  case False
  then have "rmap (wrap_index n) ys = Inl IndexError"
    by (intro rmap_Inl) (auto simp: list_all_iff wrap_index_cases)
  with False show ?thesis by simp
qed

lemma length_LongTensor_range [simp]: "length (LongTensor_range n) = n"
  by (simp add: LongTensor_range_def)

lemma nth_LongTensor_range [simp]: "k < n \<Longrightarrow> LongTensor_range n ! k = int k"
  by (simp add: LongTensor_range_def)

lemma rmap_wrap_range:
  assumes "int n \<le> B"
  shows "rmap (wrap_index B) (LongTensor_range n) = Inr (LongTensor_range n)"
proof -
  have "list_all (\<lambda>v. - B \<le> v \<and> v < B) (LongTensor_range n)"
    using assms by (auto simp: list_all_iff LongTensor_range_def)
  moreover have "map (\<lambda>v. if v < 0 then v + B else v) (LongTensor_range n) = LongTensor_range n"
    by (simp add: LongTensor_range_def)
  ultimately show ?thesis by (simp add: rmap_wrap_index)
qed

lemma index2_rows:
  assumes "shape t = B # nd # rest" "int (length y) \<le> B"
  shows "index2 t (LongTensor_range (length y)) y =
     (if list_all (\<lambda>v. - nd \<le> v \<and> v < nd) y
      then Inr \<lparr>shape = int (length y) # rest,
                elem = (\<lambda>idx. elem t (LongTensor_range (length y) ! nat (hd idx)
                                     # map (\<lambda>v. if v < 0 then v + nd else v) y ! nat (hd idx)
                                     # tl idx))\<rparr>
      else Inl IndexError)"
  using assms
  by (simp add: index2_def rmap_wrap_range [OF assms(2)] rmap_wrap_index [of nd y])

lemma index2_rows_elem:
  assumes "shape t = B # nd # rest" "int (length y) \<le> B"
    "list_all (\<lambda>v. - nd \<le> v \<and> v < nd) y"
  shows "\<exists>out. index2 t (LongTensor_range (length y)) y = Inr out
     \<and> shape out = int (length y) # rest
     \<and> (\<forall>i < length y. \<forall>r. elem out (int i # r)
            = elem t (int i # (if y ! i < 0 then y ! i + nd else y ! i) # r))"
  using assms by (simp add: index2_rows)


lemma view_flatten:
  assumes "shape t = [B, nd, 1, 1]" "0 < B"
  shows "view t [B, - 1]
     = Inr \<lparr>shape = [B, nd],
            elem = (\<lambda>idx. elem t (unravel [B, nd, 1, 1] (ravel [B, nd] idx)))\<rparr>"
  using assms by (simp add: view_def view_shape_def)

lemma unravel_logit:
  assumes "0 \<le> v" "v < nd"
  shows "unravel [B, nd, 1, 1] (ravel [B, nd] [i, v]) = [i, v, 0, 0]"
  using assms by (simp add: ravel_def div_mod_row)

lemma Discriminator_forward_rows:
  assumes "Sequential_forward K (d_blocks d) x = Inr logits" "shape logits = [B, nd, 1, 1]"
    "0 < B" "int (length y) \<le> B"
  shows "if list_all (\<lambda>v. - nd \<le> v \<and> v < nd) y
     then \<exists>out. Discriminator_forward K d x y = Inr out \<and> shape out = [int (length y)]
       \<and> (\<forall>i < length y. elem out [int i]
             = elem logits [int i, if y ! i < 0 then y ! i + nd else y ! i, 0, 0])
     else Discriminator_forward K d x y = Inl IndexError"
proof -
  let ?v = "\<lparr>shape = [B, nd],
            elem = (\<lambda>idx. elem logits (unravel [B, nd, 1, 1] (ravel [B, nd] idx)))\<rparr>"
  have v: "view logits [B, - 1] = Inr ?v" using assms(2,3) by (rule view_flatten)
  have sz: "size_at logits 0 = Inr B" by (simp add: size_at_def assms(2))
  have fw: "Discriminator_forward K d x y = index2 ?v (LongTensor_range (length y)) y"
    by (simp only: Discriminator_forward_def assms(1) rbind_Inr sz v Let_def)
  have sv: "shape ?v = B # nd # []" by simp
  show ?thesis
  proof (cases "list_all (\<lambda>v. - nd \<le> v \<and> v < nd) y")
    case True
    from index2_rows_elem [OF sv assms(4) True] obtain out where
      out: "index2 ?v (LongTensor_range (length y)) y = Inr out"
        "shape out = [int (length y)]" and
      el: "\<forall>i < length y. \<forall>r. elem out (int i # r)
            = elem ?v (int i # (if y ! i < 0 then y ! i + nd else y ! i) # r)"
      by blast
    have "elem out [int i] = elem logits [int i, if y ! i < 0 then y ! i + nd else y ! i, 0, 0]"
      if "i < length y" for i
    proof -
      from True that have yi: "- nd \<le> y ! i" "y ! i < nd" by (simp_all add: list_all_length)
      let ?w = "if y ! i < 0 then y ! i + nd else y ! i"
      from yi have w: "0 \<le> ?w" "?w < nd" by auto
      from el that have "elem out [int i] = elem ?v [int i, ?w]" by blast
      also have "\<dots> = elem logits [int i, ?w, 0, 0]"
        using unravel_logit [OF w, of B "int i"] by simp
      finally show ?thesis .
    qed
    with out fw True show ?thesis by auto
  next
    case False
    with index2_rows [OF sv assms(4)] fw show ?thesis by simp
  qed
qed

section \<open>The downsampling pyramid\<close>


lemma rbind_assoc: "rbind (rbind m f) g = rbind m (\<lambda>v. rbind (f v) g)"
  by (cases m) simp_all

lemma rbind_Inr_right [simp]: "rbind m Inr = m"
  by (cases m) simp_all

lemma Sequential_from_Nil [simp]: "Sequential_from K i [] = Inr"
  by (rule ext) simp

lemma Sequential_from_append:
  "Sequential_from K i (xs @ ys) x
     = rbind (Sequential_from K i xs x) (Sequential_from K (i + length xs) ys)"
proof (induction xs arbitrary: x i)
  case Nil
  show ?case by simp
next
  case (Cons a xs)
  have "Sequential_from K (Suc i) (xs @ ys)
      = (\<lambda>v. rbind (Sequential_from K (Suc i) xs v) (Sequential_from K (Suc i + length xs) ys))"
    by (rule ext) (rule Cons.IH)
  then show ?case by (simp add: rbind_assoc)
qed

lemma Sequential_forward_append:
  "Sequential_forward K (xs @ ys) x
     = rbind (Sequential_forward K xs x) (Sequential_from K (length xs) ys)"
  by (simp add: Sequential_forward_def Sequential_from_append)

lemma stage_width_pos: "1 \<le> c \<Longrightarrow> 1 \<le> m \<Longrightarrow> 1 \<le> stage_width n m c"
  by (induction n arbitrary: c) simp_all

lemma pyramid_loop_forward:
  assumes "pyramid_loop n m st = Inr st'"
    "Sequential_forward K (ps_blocks st) x = Inr t" "shape t = [b, ps_dim_in st, h, w]"
    "2 ^ Suc n \<le> h" "2 ^ Suc n \<le> w" "1 \<le> ps_dim_in st" "1 \<le> m" "1 \<le> b"
  shows "\<exists>t'. Sequential_forward K (ps_blocks st') x = Inr t'
     \<and> shape t' = [b, ps_dim_in st', h div 2 ^ n, w div 2 ^ n]"
  using assms
proof (induction n arbitrary: st t h w)
  case 0
  then show ?case by simp
next
  case (Suc n)
  let ?c = "min (ps_dim_in st * 2) m"
  from Suc.prems(1) obtain rb where
    rb: "ResBlock_init (ps_dim_in st) ?c 64 (LeakyReLU 0.2) True False = Inr rb" and
    rest: "pyramid_loop n m
        \<lparr>ps_dim_in = ?c, ps_dim_out = Some ?c, ps_blocks = ps_blocks st @ [M_ResBlock rb]\<rparr>
      = Inr st'"
    by (auto simp: Let_def rbind_eq_Inr)
  let ?st1 = "\<lparr>ps_dim_in = ?c, ps_dim_out = Some ?c,
      ps_blocks = ps_blocks st @ [M_ResBlock rb]\<rparr>"
  from Suc.prems(4,5) have big: "2 * 2 ^ Suc n \<le> h" "2 * 2 ^ Suc n \<le> w" by simp_all
  from big have b2: "4 * 2 ^ n \<le> h" "4 * 2 ^ n \<le> w" by simp_all
  have p: "(1::int) \<le> 2 ^ n" by simp
  from b2 p have h4: "4 \<le> h" "4 \<le> w" by linarith+
  then have c: "2 \<le> (if True then h div 2 else h)" "2 \<le> (if True then w div 2 else w)"
    by simp_all
  from Suc.prems(6,7) have cpos: "1 \<le> ?c" by simp
  let ?K = "k_sub K (Item (length (ps_blocks st)))"
  from ResBlock_forward_shape [OF rb Suc.prems(3) c Suc.prems(6) cpos Suc.prems(8), of ?K]
  obtain t1 where
    t1: "ResBlock_forward ?K rb t = Inr t1" "shape t1 = [b, ?c, h div 2, w div 2]" by auto
  have s1: "Sequential_forward K (ps_blocks ?st1) x = Inr t1"
    by (simp add: Sequential_forward_append Suc.prems(2) t1)
  have sh1: "shape t1 = [b, ps_dim_in ?st1, h div 2, w div 2]" using t1 by simp
  from big have hh: "2 ^ Suc n \<le> h div 2" "2 ^ Suc n \<le> w div 2" by simp_all
  from cpos have cpos1: "1 \<le> ps_dim_in ?st1" by simp
  from Suc.IH [OF rest s1 sh1 hh cpos1 Suc.prems(7,8)] obtain t' where
    t': "Sequential_forward K (ps_blocks st') x = Inr t'"
    "shape t' = [b, ps_dim_in st', h div 2 div 2 ^ n, w div 2 div 2 ^ n]" by blast
  have "h div 2 div 2 ^ n = h div 2 ^ Suc n" "w div 2 div 2 ^ n = w div 2 ^ Suc n"
    by (simp_all add: zdiv_zmult2_eq)
  with t' show ?case by simp
qed



lemma pyramid_loop_state:
  "pyramid_loop n m st = Inr st' \<Longrightarrow>
     ps_dim_in st' = stage_width n m (ps_dim_in st)
   \<and> (if n = 0 then st' = st else ps_dim_out st' = Some (ps_dim_in st'))"
proof (induction n arbitrary: st)
  case 0
  then show ?case by simp
next
  case (Suc n)
  let ?c = "min (ps_dim_in st * 2) m"
  from Suc.prems obtain rb where
    rest: "pyramid_loop n m
        \<lparr>ps_dim_in = ?c, ps_dim_out = Some ?c, ps_blocks = ps_blocks st @ [M_ResBlock rb]\<rparr>
      = Inr st'"
    by (auto simp: Let_def rbind_eq_Inr)
  from Suc.IH [OF rest] show ?case by (cases n) auto
qed

lemma Discriminator_init_Inr:
  assumes "Discriminator_init img_size num_domains max_conv_dim = Inr d"
  obtains st where
    "0 < img_size"
    "pyramid_loop (nat (ilog2 img_size - 2)) max_conv_dim
       \<lparr>ps_dim_in = 2 ^ 14 div img_size, ps_dim_out = None,
        ps_blocks = [M_Conv2d \<lparr>in_channels = 3, out_channels = 2 ^ 14 div img_size,
                       kernel_size = 3, stride = 1, padding = 1, bias = True\<rparr>]\<rparr> = Inr st"
    "d_blocks d = ps_blocks st @
       [M_Activation (LeakyReLU 0.2),
        M_Conv2d \<lparr>in_channels = ps_dim_in st, out_channels = ps_dim_in st, kernel_size = 4,
                  stride = 1, padding = 0, bias = True\<rparr>,
        M_Activation (LeakyReLU 0.2),
        M_Conv2d \<lparr>in_channels = ps_dim_in st, out_channels = num_domains, kernel_size = 1,
                  stride = 1, padding = 0, bias = True\<rparr>]"
proof -
  have nz: "img_size \<noteq> 0" using assms by (auto simp: Discriminator_init_def py_floordiv_def)
  have nneg: "\<not> img_size < 0"
    using assms nz neg_size_div [of img_size]
    by (auto simp: Discriminator_init_def py_floordiv_def Conv2d_def)
  from nz nneg have pos: "0 < img_size" by simp
  let ?st0 = "\<lparr>ps_dim_in = 2 ^ 14 div img_size, ps_dim_out = None,
        ps_blocks = [M_Conv2d \<lparr>in_channels = 3, out_channels = 2 ^ 14 div img_size,
                       kernel_size = 3, stride = 1, padding = 1, bias = True\<rparr>]\<rparr>"
  from assms pos obtain st dim_out where
    st: "pyramid_loop (nat (ilog2 img_size - 2)) max_conv_dim ?st0 = Inr st" and
    out: "ps_dim_out st = Some dim_out" and
    d: "d_blocks d = ps_blocks st @
       [M_Activation (LeakyReLU 0.2),
        M_Conv2d \<lparr>in_channels = dim_out, out_channels = dim_out, kernel_size = 4,
                  stride = 1, padding = 0, bias = True\<rparr>,
        M_Activation (LeakyReLU 0.2),
        M_Conv2d \<lparr>in_channels = dim_out, out_channels = num_domains, kernel_size = 1,
                  stride = 1, padding = 0, bias = True\<rparr>]"
    by (auto simp: Discriminator_init_def py_floordiv_def rbind_eq_Inr Conv2d_eq_Inr
        int_np_log2_def Let_def read_local_def split: if_splits option.splits)
  from pyramid_loop_state [OF st] out have "dim_out = ps_dim_in st"
    by (cases "nat (ilog2 img_size - 2) = 0") auto
  with pos st d that show thesis by simp
qed

lemma StyleEncoder_init_Inr:
  assumes "StyleEncoder_init img_size style_dim num_domains max_conv_dim = Inr e"
  obtains st where
    "0 < img_size"
    "pyramid_loop (nat (ilog2 img_size - 2)) max_conv_dim
       \<lparr>ps_dim_in = 2 ^ 14 div img_size, ps_dim_out = None,
        ps_blocks = [M_Conv2d \<lparr>in_channels = 3, out_channels = 2 ^ 14 div img_size,
                       kernel_size = 3, stride = 1, padding = 1, bias = True\<rparr>]\<rparr> = Inr st"
    "se_shared e = ps_blocks st @
       [M_Activation (LeakyReLU 0.2),
        M_Conv2d \<lparr>in_channels = ps_dim_in st, out_channels = ps_dim_in st, kernel_size = 4,
                  stride = 1, padding = 0, bias = True\<rparr>,
        M_Activation (LeakyReLU 0.2)]"
    "se_unshared e
       = replicate (nat num_domains) \<lparr>in_features = ps_dim_in st, out_features = style_dim\<rparr>"
proof -
  have nz: "img_size \<noteq> 0" using assms by (auto simp: StyleEncoder_init_def py_floordiv_def)
  have nneg: "\<not> img_size < 0"
    using assms nz neg_size_div [of img_size]
    by (auto simp: StyleEncoder_init_def py_floordiv_def Conv2d_def)
  from nz nneg have pos: "0 < img_size" by simp
  let ?st0 = "\<lparr>ps_dim_in = 2 ^ 14 div img_size, ps_dim_out = None,
        ps_blocks = [M_Conv2d \<lparr>in_channels = 3, out_channels = 2 ^ 14 div img_size,
                       kernel_size = 3, stride = 1, padding = 1, bias = True\<rparr>]\<rparr>"
  from assms pos obtain st dim_out heads where
    st: "pyramid_loop (nat (ilog2 img_size - 2)) max_conv_dim ?st0 = Inr st" and
    out: "ps_dim_out st = Some dim_out" and
    hs: "rmap (\<lambda>_. Linear dim_out style_dim) [0..<nat num_domains] = Inr heads" and
    sh: "se_shared e = ps_blocks st @
       [M_Activation (LeakyReLU 0.2),
        M_Conv2d \<lparr>in_channels = dim_out, out_channels = dim_out, kernel_size = 4,
                  stride = 1, padding = 0, bias = True\<rparr>,
        M_Activation (LeakyReLU 0.2)]" and
    un: "se_unshared e = heads"
    by (auto simp: StyleEncoder_init_def py_floordiv_def rbind_eq_Inr Conv2d_eq_Inr
        int_np_log2_def Let_def read_local_def split: if_splits option.splits)
  from pyramid_loop_state [OF st] out have dd: "dim_out = ps_dim_in st"
    by (cases "nat (ilog2 img_size - 2) = 0") auto
  have "heads = replicate (nat num_domains) \<lparr>in_features = dim_out, out_features = style_dim\<rparr>"
  proof (cases "Linear dim_out style_dim")
    case (Inl err)
    show ?thesis
    proof (cases "nat num_domains")
      case 0
      with hs show ?thesis by simp
    next
      case (Suc k)
      with hs Inl show ?thesis by (simp add: upt_rec)
    qed
  next
    case (Inr l)
    then have l: "l = \<lparr>in_features = dim_out, out_features = style_dim\<rparr>"
      by (auto simp: Linear_def split: if_splits)
    from rmap_const [OF Inr, of "[0..<nat num_domains]"] hs l show ?thesis
      by (simp add: map_replicate_const)
  qed
  with pos st sh un dd that show thesis by simp
qed


lemma div_eq_4_bound:
  assumes "S div 2 ^ n = (4::int)"
  shows "2 ^ Suc n \<le> S" "1 \<le> S"
proof -
  have "S = 2 ^ n * (S div 2 ^ n) + S mod 2 ^ n" by simp
  with assms have "S = 2 ^ n * 4 + S mod 2 ^ n" by simp
  moreover have "0 \<le> S mod 2 ^ n" by simp
  ultimately have b: "4 * 2 ^ n \<le> S" by linarith
  have p: "(1::int) \<le> 2 ^ n" by simp
  have "(2::int) ^ Suc n = 2 * 2 ^ n" by simp
  with b p show "2 ^ Suc n \<le> S" by linarith
  from b p show "1 \<le> S" by linarith
qed

lemma pyramid_trunk_shape:
  assumes "pyramid_loop (nat (ilog2 S - 2)) m
       \<lparr>ps_dim_in = 2 ^ 14 div S, ps_dim_out = None,
        ps_blocks = [M_Conv2d \<lparr>in_channels = 3, out_channels = 2 ^ 14 div S,
                       kernel_size = 3, stride = 1, padding = 1, bias = True\<rparr>]\<rparr> = Inr st"
    "shape x = [B, 3, S, S]" "S div 2 ^ nat (ilog2 S - 2) = 4"
    "S \<le> 2 ^ 14" "1 \<le> m" "1 \<le> B"
  shows "\<exists>t. Sequential_forward K (ps_blocks st @
       [M_Activation (LeakyReLU 0.2),
        M_Conv2d \<lparr>in_channels = ps_dim_in st, out_channels = ps_dim_in st, kernel_size = 4,
                  stride = 1, padding = 0, bias = True\<rparr>,
        M_Activation (LeakyReLU 0.2)]) x = Inr t \<and> shape t = [B, ps_dim_in st, 1, 1]"
proof -
  let ?c0 = "\<lparr>in_channels = 3, out_channels = 2 ^ 14 div S,
                       kernel_size = 3, stride = 1, padding = 1, bias = True\<rparr>"
  let ?st0 = "\<lparr>ps_dim_in = 2 ^ 14 div S, ps_dim_out = None, ps_blocks = [M_Conv2d ?c0]\<rparr>"
  note b = div_eq_4_bound [OF assms(3)]
  from b(2) assms(4) have "2 ^ 14 div 2 ^ 14 \<le> (2::int) ^ 14 div S"
    by (intro zdiv_mono2) simp_all
  then have c0: "1 \<le> (2::int) ^ 14 div S" by simp
  let ?t0 = "\<lparr>shape = [B, 2 ^ 14 div S, S, S], elem = k_conv2d (k_sub K (Item 0)) ?c0 x\<rparr>"
  have t0: "Sequential_forward K (ps_blocks ?st0) x = Inr ?t0"
    using assms(2) b(2) c0
    by (simp add: Sequential_forward_def conv2d_forward_def conv2d_out_def)
  have sh0: "shape ?t0 = [B, ps_dim_in ?st0, S, S]" by simp
  from c0 have c0': "1 \<le> ps_dim_in ?st0" by simp
  from pyramid_loop_forward [OF assms(1) t0 sh0 b(1) b(1) c0' assms(5,6)] assms(3) obtain t1 where
    t1: "Sequential_forward K (ps_blocks st) x = Inr t1" "shape t1 = [B, ps_dim_in st, 4, 4]"
    by auto
  from pyramid_loop_state [OF assms(1)] stage_width_pos [OF c0 assms(5)]
  have dpos: "1 \<le> ps_dim_in st" by simp
  show ?thesis
    using dpos by (simp add: Sequential_forward_append t1 conv2d_forward_def conv2d_out_def)
qed

lemma Discriminator_pyramid_shape:
  assumes "Discriminator_init S num_domains m = Inr d"
    "shape x = [B, 3, S, S]" "S div 2 ^ nat (ilog2 S - 2) = 4"
    "S \<le> 2 ^ 14" "1 \<le> m" "1 \<le> B" "1 \<le> num_domains"
  shows "\<exists>t. Sequential_forward K (d_blocks d) x = Inr t \<and> shape t = [B, num_domains, 1, 1]"
proof -
  from assms(1) obtain st where
    st: "pyramid_loop (nat (ilog2 S - 2)) m
       \<lparr>ps_dim_in = 2 ^ 14 div S, ps_dim_out = None,
        ps_blocks = [M_Conv2d \<lparr>in_channels = 3, out_channels = 2 ^ 14 div S,
                       kernel_size = 3, stride = 1, padding = 1, bias = True\<rparr>]\<rparr> = Inr st" and
    d: "d_blocks d = ps_blocks st @
       [M_Activation (LeakyReLU 0.2),
        M_Conv2d \<lparr>in_channels = ps_dim_in st, out_channels = ps_dim_in st, kernel_size = 4,
                  stride = 1, padding = 0, bias = True\<rparr>,
        M_Activation (LeakyReLU 0.2),
        M_Conv2d \<lparr>in_channels = ps_dim_in st, out_channels = num_domains, kernel_size = 1,
                  stride = 1, padding = 0, bias = True\<rparr>]"
    by (rule Discriminator_init_Inr)
  let ?trunk = "ps_blocks st @
       [M_Activation (LeakyReLU 0.2),
        M_Conv2d \<lparr>in_channels = ps_dim_in st, out_channels = ps_dim_in st, kernel_size = 4,
                  stride = 1, padding = 0, bias = True\<rparr>,
        M_Activation (LeakyReLU 0.2)]"
  from pyramid_trunk_shape [OF st assms(2,3,4,5,6), of K] obtain t where
    t: "Sequential_forward K ?trunk x = Inr t" "shape t = [B, ps_dim_in st, 1, 1]" by blast
  let ?c1 = "\<lparr>in_channels = ps_dim_in st, out_channels = num_domains, kernel_size = 1,
                  stride = 1, padding = 0, bias = True\<rparr>"
  have dd: "d_blocks d = ?trunk @ [M_Conv2d ?c1]" by (simp add: d)
  have "Sequential_forward K (d_blocks d) x
      = rbind (Sequential_forward K ?trunk x) (Sequential_from K (length ?trunk) [M_Conv2d ?c1])"
    unfolding dd by (rule Sequential_forward_append)
  also have "\<dots> = conv2d_forward (k_sub K (Item (length ?trunk))) ?c1 t"
    unfolding t(1) by simp
  finally show ?thesis using assms(7) by (simp add: conv2d_forward_def conv2d_out_def t(2))
qed

lemma StyleEncoder_features_shape:
  assumes "StyleEncoder_init S style_dim num_domains m = Inr e"
    "shape x = [B, 3, S, S]" "S div 2 ^ nat (ilog2 S - 2) = 4" "0 < B"
    "S \<le> 2 ^ 14" "1 \<le> m"
  shows "\<exists>h. StyleEncoder_features K e x = Inr h
     \<and> shape h = [B, stage_width (nat (ilog2 S - 2)) m (2 ^ 14 div S)]
     \<and> se_unshared e = replicate (nat num_domains)
          \<lparr>in_features = stage_width (nat (ilog2 S - 2)) m (2 ^ 14 div S),
           out_features = style_dim\<rparr>"
proof -
  from assms(1) obtain st where
    st: "pyramid_loop (nat (ilog2 S - 2)) m
       \<lparr>ps_dim_in = 2 ^ 14 div S, ps_dim_out = None,
        ps_blocks = [M_Conv2d \<lparr>in_channels = 3, out_channels = 2 ^ 14 div S,
                       kernel_size = 3, stride = 1, padding = 1, bias = True\<rparr>]\<rparr> = Inr st" and
    sh: "se_shared e = ps_blocks st @
       [M_Activation (LeakyReLU 0.2),
        M_Conv2d \<lparr>in_channels = ps_dim_in st, out_channels = ps_dim_in st, kernel_size = 4,
                  stride = 1, padding = 0, bias = True\<rparr>,
        M_Activation (LeakyReLU 0.2)]" and
    un: "se_unshared e
       = replicate (nat num_domains) \<lparr>in_features = ps_dim_in st, out_features = style_dim\<rparr>"
    by (rule StyleEncoder_init_Inr)
  from pyramid_loop_state [OF st]
  have D: "ps_dim_in st = stage_width (nat (ilog2 S - 2)) m (2 ^ 14 div S)" by simp
  from assms(4) have B1: "1 \<le> B" by simp
  from pyramid_trunk_shape [OF st assms(2,3,5,6) B1, of "k_sub K (Attr ''shared'')"] obtain t where
    t: "Sequential_forward (k_sub K (Attr ''shared'')) (se_shared e) x = Inr t"
    "shape t = [B, ps_dim_in st, 1, 1]"
    unfolding sh by blast
  have "\<exists>h. StyleEncoder_features K e x = Inr h \<and> shape h = [B, ps_dim_in st]"
    using assms(4)
    by (simp add: StyleEncoder_features_def t size_at_def view_flatten [OF t(2)])
  with un D show ?thesis by simp
qed

section \<open>Concrete configurations\<close>


lemma ilog2_256: "ilog2 256 = 8" by (simp add: ilog2.simps)
lemma ilog2_8: "ilog2 8 = 3" by (simp add: ilog2.simps)

lemma Discriminator_logits_elem:
  assumes "Discriminator_init S num_domains m = Inr d"
    "Sequential_forward K (d_blocks d) x = Inr t"
  shows "\<exists>i c u. elem t = k_conv2d (k_sub K (Item i)) c u"
proof -
  from assms(1) obtain st where "0 < S" and
    "pyramid_loop (nat (ilog2 S - 2)) m
       \<lparr>ps_dim_in = 2 ^ 14 div S, ps_dim_out = None,
        ps_blocks = [M_Conv2d \<lparr>in_channels = 3, out_channels = 2 ^ 14 div S,
                       kernel_size = 3, stride = 1, padding = 1, bias = True\<rparr>]\<rparr> = Inr st" and
    d: "d_blocks d = ps_blocks st @
       [M_Activation (LeakyReLU 0.2),
        M_Conv2d \<lparr>in_channels = ps_dim_in st, out_channels = ps_dim_in st, kernel_size = 4,
                  stride = 1, padding = 0, bias = True\<rparr>,
        M_Activation (LeakyReLU 0.2),
        M_Conv2d \<lparr>in_channels = ps_dim_in st, out_channels = num_domains, kernel_size = 1,
                  stride = 1, padding = 0, bias = True\<rparr>]"
    by (rule Discriminator_init_Inr)
  from assms(2) obtain u vc i where
    "t = \<lparr>shape = vc,
           elem = k_conv2d (k_sub K (Item i))
                    \<lparr>in_channels = ps_dim_in st, out_channels = num_domains,
                     kernel_size = 1, stride = 1, padding = 0, bias = True\<rparr> u\<rparr>"
    unfolding d Sequential_forward_append
    by (auto simp: rbind_eq_Inr conv2d_forward_def)
  then have "elem t = k_conv2d (k_sub K (Item i))
                    \<lparr>in_channels = ps_dim_in st, out_channels = num_domains,
                     kernel_size = 1, stride = 1, padding = 0, bias = True\<rparr> u" by simp
  then show ?thesis by blast
qed


lemma StyleEncoder_forward_split:
  "StyleEncoder_forward K e x y
     = rbind (StyleEncoder_features K e x) (\<lambda>h. heads_on K (se_unshared e) x y)"
  by (simp add: StyleEncoder_forward_def StyleEncoder_features_def heads_on_def rbind_assoc
      Let_def)

lemma rshape_Inr [simp]: "rshape (Inr t) = Inr (shape t)"
  by (simp add: rshape_def)

lemma rshape_Inl [simp]: "rshape (Inl e) = Inl e"
  by (simp add: rshape_def)

lemma relem_Inr [simp]: "relem (Inr t) idx = elem t idx"
  by (simp add: relem_def)

lemma MappingNetwork_forward_never_returns: "MappingNetwork_forward K m z y \<noteq> Inr t"
  by (cases "Sequential_forward (k_sub K (Attr ''shared'')) (mn_shared m) z")
     (simp_all add: MappingNetwork_forward_def global_layers_def module_globals_def)

lemma upt_3: "[0..<3] = [0, 1, 2]" by (simp add: upt_rec)
lemma upt_2: "[0..<2] = [0, 1]" by (simp add: upt_rec)

lemma StyleEncoder_default:
  assumes "StyleEncoder_init 256 64 2 512 = Inr e" "shape x = [B, 3, 256, 256]" "0 < B"
  shows "(\<exists>h. StyleEncoder_features K e x = Inr h \<and> shape h = [B, 512])
     \<and> se_unshared e = [\<lparr>in_features = 512, out_features = 64\<rparr>,
                          \<lparr>in_features = 512, out_features = 64\<rparr>]
     \<and> heads_on K (se_unshared e) x y = Inl RuntimeError"
proof -
  have s: "(256::int) div 2 ^ nat (ilog2 256 - 2) = 4" by (simp add: ilog2_256)
  have w: "stage_width (nat (ilog2 256 - 2)) 512 64 = 512"
    by (simp add: ilog2_256 eval_nat_numeral)
  have bd: "(256::int) \<le> 2 ^ 14" "(1::int) \<le> 512" by simp_all
  from StyleEncoder_features_shape [OF assms(1,2) s assms(3) bd, of K]
  have f: "\<exists>h. StyleEncoder_features K e x = Inr h \<and> shape h = [B, 512]"
    and un: "se_unshared e = [\<lparr>in_features = 512, out_features = 64\<rparr>,
                          \<lparr>in_features = 512, out_features = 64\<rparr>]"
    by (auto simp: w numeral_2_eq_2)
  have "heads_on K (se_unshared e) x y = Inl RuntimeError"
    by (simp add: heads_on_def un linear_forward_def linear_shape_def assms(2))
  with f un show ?thesis by blast
qed

section \<open>Shapes along the generator\<close>


lemma AdaptiveInstanceNorm_forward_shape:
  assumes "AdaptiveInstanceNorm_init sd nf = Inr a"
    "shape x = [B, nf, H, W]" "shape s = [B, sd]" "0 \<le> B" "H * W \<noteq> 1"
  shows "\<exists>t. AdaptiveInstanceNorm_forward K a x s = Inr t \<and> shape t = [B, nf, H, W]"
proof -
  from assms(1) have an: "ain_norm a = \<lparr>num_features = nf, affine = False\<rparr>"
    by (simp add: AdaptiveInstanceNorm_init_eq)
  from AdaptiveInstanceNorm_forward_steps [OF assms(1,3,4), of K] obtain h1 where
    h1: "shape h1 = [B, nf * 2, 1, 1]
    \<and> (\<forall>b c. 0 \<le> c \<longrightarrow> c < nf * 2 \<longrightarrow>
          elem h1 [b, c, 0, 0] = k_linear K (ain_fc a) s [b, c])
    \<and> (\<forall>x. AdaptiveInstanceNorm_forward K a x s =
          rbind (instance_norm_forward K (ain_norm a) x) (\<lambda>n.
          rbind (tensor_mul (scalar_add 1 (narrow h1 1 0 nf)) n) (\<lambda>m.
          tensor_add m (narrow h1 1 nf nf))))" ..
  from h1 have sh1: "shape h1 = [B, nf * 2, 1, 1]" by (rule conjunct1)
  from h1 have fw: "AdaptiveInstanceNorm_forward K a x s =
       rbind (instance_norm_forward K (ain_norm a) x) (\<lambda>n.
       rbind (tensor_mul (scalar_add 1 (narrow h1 1 0 nf)) n) (\<lambda>m.
       tensor_add m (narrow h1 1 nf nf)))"
    by simp
  let ?n = "\<lparr>shape = [B, nf, H, W], elem = k_instance_norm K (ain_norm a) x\<rparr>"
  have n: "instance_norm_forward K (ain_norm a) x = Inr ?n"
    using assms(2,5) by (simp add: instance_norm_forward_def instance_norm_check_def an)
  show ?thesis
    unfolding fw n
    by (simp add: tensor_mul_def tensor_add_def tensor_binop_def sh1 broadcast_1_full
        broadcast_full_1)
qed

lemma AdaResBlock_init_eq:
  "AdaResBlock_init v w sd a us = Inr blk \<longleftrightarrow>
     0 \<le> v \<and> 0 \<le> w \<and> 0 \<le> sd
   \<and> blk = \<lparr>ab_activ = a, ab_upsample = us, ab_shortcut = (v \<noteq> w),
       ab_conv_1 = \<lparr>in_channels = v, out_channels = w, kernel_size = 3, stride = 1,
                     padding = 1, bias = True\<rparr>,
       ab_conv_2 = \<lparr>in_channels = w, out_channels = w, kernel_size = 3, stride = 1,
                     padding = 1, bias = True\<rparr>,
       ab_norm_1 = \<lparr>ain_norm = \<lparr>num_features = v, affine = False\<rparr>,
                     ain_fc = \<lparr>in_features = sd, out_features = v * 2\<rparr>\<rparr>,
       ab_norm_2 = \<lparr>ain_norm = \<lparr>num_features = w, affine = False\<rparr>,
                     ain_fc = \<lparr>in_features = sd, out_features = w * 2\<rparr>\<rparr>,
       ab_conv_1x1 = (if v \<noteq> w
                      then Some \<lparr>in_channels = v, out_channels = w, kernel_size = 1, stride = 1,
                                  padding = 0, bias = False\<rparr>
                      else None)\<rparr>"
  by (auto simp: AdaResBlock_init_def Conv2d_def InstanceNorm2d_def Linear_def
      AdaptiveInstanceNorm_init_def)


lemma AdaResBlock_forward_shape:
  assumes "AdaResBlock_init v w sd a us = Inr blk" "shape x = [b, v, h, wd]"
    "shape s = [b, sd]" "0 \<le> b" "2 \<le> h" "2 \<le> wd" "1 \<le> w"
  shows "\<exists>t. AdaResBlock_forward K blk x s = Inr t
     \<and> shape t = [b, w, if us then h * 2 else h, if us then wd * 2 else wd]"
proof -
  let ?h = "if us then h * 2 else h" and ?w = "if us then wd * 2 else wd"
  from assms(1) have nn: "0 \<le> v" "0 \<le> w" "0 \<le> sd" by (simp_all add: AdaResBlock_init_eq)
  from assms(1) have blk: "ab_upsample blk = us" "ab_shortcut blk = (v \<noteq> w)" "ab_activ blk = a"
    "ab_conv_1 blk = \<lparr>in_channels = v, out_channels = w, kernel_size = 3, stride = 1,
                     padding = 1, bias = True\<rparr>"
    "ab_conv_2 blk = \<lparr>in_channels = w, out_channels = w, kernel_size = 3, stride = 1,
                     padding = 1, bias = True\<rparr>"
    "ab_conv_1x1 blk = (if v \<noteq> w
                      then Some \<lparr>in_channels = v, out_channels = w, kernel_size = 1, stride = 1,
                                  padding = 0, bias = False\<rparr>
                      else None)"
    by (simp_all add: AdaResBlock_init_eq)
  from assms(1) nn have n1: "AdaptiveInstanceNorm_init sd v = Inr (ab_norm_1 blk)"
    and n2: "AdaptiveInstanceNorm_init sd w = Inr (ab_norm_2 blk)"
    by (simp_all add: AdaResBlock_init_eq AdaptiveInstanceNorm_init_eq)
  from assms(5,6) have "2 * 2 \<le> h * wd" by (intro mult_mono) simp_all
  then have hw1: "h * wd \<noteq> 1" by simp
  from assms(5,6) have up: "2 \<le> ?h" "2 \<le> ?w" by simp_all
  then have "2 * 2 \<le> ?h * ?w" by (intro mult_mono) simp_all
  then have hw2: "?h * ?w \<noteq> 1" by simp
  \<comment> \<open>the residual path\<close>
  from AdaptiveInstanceNorm_forward_shape [OF n1 assms(2,3,4) hw1, of "k_sub K (Attr ''norm_1'')"]
  obtain t1 where
    t1: "AdaptiveInstanceNorm_forward (k_sub K (Attr ''norm_1'')) (ab_norm_1 blk) x s = Inr t1"
    "shape t1 = [b, v, h, wd]"
    by blast
  let ?t2 = "tensor_map (activation_fn a) t1"
  have s2: "shape ?t2 = [b, v, h, wd]" using t1 by simp
  obtain t3 where t3: "(if ab_upsample blk then interpolate_nearest ?t2 2 else Inr ?t2) = Inr t3"
    "shape t3 = [b, v, ?h, ?w]"
    using s2 by (cases us) (simp_all add: blk interpolate_nearest_def)
  obtain t4 where t4: "conv2d_forward (k_sub K (Attr ''conv_1'')) (ab_conv_1 blk) t3 = Inr t4"
    "shape t4 = [b, w, ?h, ?w]"
    using t3(2) up assms(7) by (simp add: conv2d_forward_def conv2d_out_def blk)
  from AdaptiveInstanceNorm_forward_shape [OF n2 t4(2) assms(3,4) hw2, of "k_sub K (Attr ''norm_2'')"]
  obtain t5 where
    t5: "AdaptiveInstanceNorm_forward (k_sub K (Attr ''norm_2'')) (ab_norm_2 blk) t4 s = Inr t5"
    "shape t5 = [b, w, ?h, ?w]"
    by blast
  let ?t6 = "tensor_map (activation_fn a) t5"
  have s6: "shape ?t6 = [b, w, ?h, ?w]" using t5 by simp
  obtain r where r7: "conv2d_forward (k_sub K (Attr ''conv_2'')) (ab_conv_2 blk) ?t6 = Inr r"
    "shape r = [b, w, ?h, ?w]"
    using s6 up assms(7) by (simp add: conv2d_forward_def conv2d_out_def blk)
  have res: "AdaResBlock_residual K blk x s = Inr r"
    unfolding AdaResBlock_residual_def using t1(1) t3(1) t4(1) t5(1) r7(1) by (simp add: blk)
  \<comment> \<open>the shortcut\<close>
  obtain u1 where u1: "(if ab_upsample blk then interpolate_nearest x 2 else Inr x) = Inr u1"
    "shape u1 = [b, v, ?h, ?w]"
    using assms(2) by (cases us) (simp_all add: blk interpolate_nearest_def)
  obtain sc where sc: "AdaResBlock_shortcut K blk x = Inr sc" "shape sc = [b, w, ?h, ?w]"
    unfolding AdaResBlock_shortcut_def u1(1)
    using u1(2) up assms(7)
    by (cases "v = w") (simp_all add: blk get_attr_def conv2d_forward_def conv2d_out_def)
  from r7(2) sc(2) have "shape r = shape sc" by simp
  from tensor_add_same [OF this] obtain t where "tensor_add r sc = Inr t" "shape t = shape r"
    by blast
  with res sc r7(2) show ?thesis
    by (simp add: AdaResBlock_forward_def tensor_div_scalar_def)
qed


lemma decoder_forward_append:
  "decoder_forward K i (xs @ ys) x s
     = rbind (decoder_forward K i xs x s) (\<lambda>t. decoder_forward K (i + length xs) ys t s)"
  by (induction xs arbitrary: x i) (simp_all add: rbind_assoc)

lemma enc_chain_pos:
  "enc_chain c es c' \<Longrightarrow> list_all (stage_widths m) es \<Longrightarrow> 1 \<le> c \<Longrightarrow> 1 \<le> m \<Longrightarrow>
   list_all (\<lambda>e. 1 \<le> rb_dim_in e \<and> 1 \<le> rb_dim_out e) es"
proof (induction es arbitrary: c)
  case Nil
  show ?case by simp
next
  case (Cons e es)
  from Cons.prems have i: "rb_dim_in e = c" and ch: "enc_chain (rb_dim_out e) es c'"
    and sw: "stage_widths m e" and sws: "list_all (stage_widths m) es" by simp_all
  from sw i Cons.prems(3,4) have o: "1 \<le> rb_dim_out e"
    by (cases "rb_downsample e") (simp_all add: stage_widths_def)
  from Cons.IH [OF ch sws o Cons.prems(4)] i o Cons.prems(3) show ?case by simp
qed

lemma sizes_ok_ge: "sizes_ok ds h \<Longrightarrow> 2 \<le> h"
proof (induction ds arbitrary: h)
  case Nil
  then show ?case by simp
next
  case (Cons d ds)
  from Cons.IH [of "if d then h div 2 else h"] Cons.prems
  have "2 \<le> (if d then h div 2 else h)" by simp
  then show ?case by (cases d) simp_all
qed

lemma round_size_ge: "sizes_ok ds h \<Longrightarrow> 2 \<le> round_size ds h"
proof (induction ds arbitrary: h)
  case Nil
  then show ?case by simp
next
  case (Cons d ds)
  from Cons.IH [of "if d then h div 2 else h"] Cons.prems
  have "2 \<le> round_size ds (if d then h div 2 else h)" by simp
  then show ?case by (cases d) simp_all
qed

lemma encoder_decoder_round:
  assumes "list_all built_ResBlock enc" "list_all2 (mirrored sd) (rev enc) dec"
    "enc_chain c enc c'" "shape x = [b, c, h, w]" "shape s = [b, sd]" "1 \<le> b"
    "sizes_ok (map rb_downsample enc) h" "sizes_ok (map rb_downsample enc) w"
    "list_all (\<lambda>e. 1 \<le> rb_dim_in e \<and> 1 \<le> rb_dim_out e) enc"
  shows "\<exists>t u. encoder_forward K i enc x = Inr t \<and> decoder_forward K' j dec t s = Inr u
     \<and> shape u = [b, c, round_size (map rb_downsample enc) h,
                   round_size (map rb_downsample enc) w]"
  using assms
proof (induction enc arbitrary: x c h w dec i)
  case Nil
  then show ?case by simp
next
  case (Cons e es)
  let ?ds = "rb_downsample e"
  let ?h1 = "if ?ds then h div 2 else h" and ?w1 = "if ?ds then w div 2 else w"
  from Cons.prems(2) obtain dec' d where
    dec: "dec = dec' @ [d]" and l2: "list_all2 (mirrored sd) (rev es) dec'" and m: "mirrored sd e d"
    by (auto simp: list_all2_append1 list_all2_Cons1)
  from Cons.prems(1) have be: "built_ResBlock e" and bes: "list_all built_ResBlock es" by simp_all
  from Cons.prems(3) have c: "rb_dim_in e = c" and ch: "enc_chain (rb_dim_out e) es c'"
    by simp_all
  from Cons.prems(7,8) have ok: "sizes_ok (map rb_downsample es) ?h1"
    "sizes_ok (map rb_downsample es) ?w1" by simp_all
  note ge = sizes_ok_ge [OF ok(1)] sizes_ok_ge [OF ok(2)]
  from be have init: "ResBlock_init c (rb_dim_out e) 64 (LeakyReLU 0.2) ?ds True = Inr e"
    by (simp add: built_ResBlock_def c)
  from Cons.prems(9) c have pe: "1 \<le> c" "1 \<le> rb_dim_out e"
    and pes: "list_all (\<lambda>e. 1 \<le> rb_dim_in e \<and> 1 \<le> rb_dim_out e) es" by simp_all
  from Cons.prems(6) have b0: "0 \<le> b" by simp
  from ResBlock_forward_shape [OF init Cons.prems(4) ge pe Cons.prems(6), of "k_sub K (Item i)"]
  obtain t1 where
    t1: "ResBlock_forward (k_sub K (Item i)) e x = Inr t1"
    "shape t1 = [b, rb_dim_out e, ?h1, ?w1]" by blast
  from Cons.IH [OF bes l2 ch t1(2) Cons.prems(5,6) ok pes, of "Suc i"] obtain t u' where
    t: "encoder_forward K (Suc i) es t1 = Inr t" and
    u': "decoder_forward K' j dec' t s = Inr u'" and
    su': "shape u' = [b, rb_dim_out e, round_size (map rb_downsample es) ?h1,
                      round_size (map rb_downsample es) ?w1]"
    by blast
  from m have dinit: "AdaResBlock_init (rb_dim_out e) c sd (LeakyReLU 0.2) ?ds = Inr d"
    by (simp add: mirrored_def c)
  note rge = round_size_ge [OF ok(1)] round_size_ge [OF ok(2)]
  from AdaResBlock_forward_shape [OF dinit su' Cons.prems(5) b0 rge pe(1),
      of "k_sub K' (Item (j + length dec'))"] obtain u where
    u: "AdaResBlock_forward (k_sub K' (Item (j + length dec'))) d u' s = Inr u"
    "shape u = [b, c, if ?ds then round_size (map rb_downsample es) ?h1 * 2
                       else round_size (map rb_downsample es) ?h1,
                if ?ds then round_size (map rb_downsample es) ?w1 * 2
                else round_size (map rb_downsample es) ?w1]"
    by blast
  have e1: "encoder_forward K i (e # es) x = Inr t" by (simp add: t1 t)
  have d1: "decoder_forward K' j dec t s = Inr u"
    by (simp add: dec decoder_forward_append u' u)
  from u(2) have "shape u = [b, c, round_size (map rb_downsample (e # es)) h,
                   round_size (map rb_downsample (e # es)) w]"
    by (cases ?ds) simp_all
  with e1 d1 show ?case by blast
qed

lemma down_loop_built:
  "Generator_down_loop n sd m st = Inr st' \<Longrightarrow> list_all built_ResBlock (gs_encoder st) \<Longrightarrow>
   list_all built_ResBlock (gs_encoder st')"
proof (induction n arbitrary: st)
  case 0
  then show ?case by simp
next
  case (Suc n)
  let ?w = "min (gs_dim_in st * 2) m"
  from Suc.prems(1) obtain rb ab where
    rb: "ResBlock_init (gs_dim_in st) ?w 64 (LeakyReLU 0.2) True True = Inr rb" and
    rest: "Generator_down_loop n sd m
        \<lparr>gs_dim_in = ?w, gs_dim_out = Some ?w,
         gs_encoder = gs_encoder st @ [rb], gs_decoder = ab # gs_decoder st\<rparr> = Inr st'"
    by (auto simp: Let_def rbind_eq_Inr)
  from rb ResBlock_init_dims [OF rb] have "built_ResBlock rb" by (simp add: built_ResBlock_def)
  with Suc.prems(2) show ?case by (intro Suc.IH [OF rest]) simp
qed

lemma bottleneck_loop_built:
  "Generator_bottleneck_loop n sd st = Inr st' \<Longrightarrow> list_all built_ResBlock (gs_encoder st) \<Longrightarrow>
   list_all built_ResBlock (gs_encoder st')"
proof (induction n arbitrary: st)
  case 0
  then show ?case by simp
next
  case (Suc n)
  from Suc.prems(1) obtain rb ab dim_out where
    rb: "ResBlock_init (gs_dim_in st) dim_out 64 (LeakyReLU 0.2) False True = Inr rb" and
    rest: "Generator_bottleneck_loop n sd
        (st\<lparr>gs_encoder := gs_encoder st @ [rb], gs_decoder := ab # gs_decoder st\<rparr>) = Inr st'"
    by (auto simp: rbind_eq_Inr)
  from rb ResBlock_init_dims [OF rb] have "built_ResBlock rb" by (simp add: built_ResBlock_def)
  with Suc.prems(2) show ?case by (intro Suc.IH [OF rest]) simp
qed

lemma Generator_init_built:
  assumes "Generator_init img_size style_dim max_conv_dim = Inr g"
  shows "list_all built_ResBlock (g_encoder g)"
proof -
  let ?st0 = "\<lparr>gs_dim_in = 2 ^ 14 div img_size, gs_dim_out = None, gs_encoder = [],
      gs_decoder = []\<rparr>"
  from assms obtain st st' where
    pos: "0 < img_size" and
    dl: "Generator_down_loop (nat (ilog2 img_size - 4)) style_dim max_conv_dim ?st0 = Inr st" and
    bl: "Generator_bottleneck_loop 2 style_dim st = Inr st'" and
    g: "g_encoder g = gs_encoder st'" "g_decoder g = gs_decoder st'"
    by (rule Generator_init_Inr)
  from down_loop_built [OF dl] have "list_all built_ResBlock (gs_encoder st)" by simp
  from bottleneck_loop_built [OF bl this] g show ?thesis by simp
qed

lemma sizes_ok_pattern:
  "sizes_ok (replicate n True @ replicate k False) S \<longleftrightarrow> 2 \<le> S div 2 ^ n"
proof (induction n arbitrary: S)
  case 0
  show ?case by (induction k) simp_all
next
  case (Suc n)
  have "S div 2 div 2 ^ n = S div 2 ^ Suc n" by (simp add: zdiv_zmult2_eq)
  with Suc [of "S div 2"] show ?case by simp
qed

lemma round_size_pattern:
  "round_size (replicate n True @ replicate k False) S = S div 2 ^ n * 2 ^ n"
proof (induction n arbitrary: S)
  case 0
  show ?case by (induction k) simp_all
next
  case (Suc n)
  have "S div 2 div 2 ^ n = S div 2 ^ Suc n" by (simp add: zdiv_zmult2_eq)
  with Suc [of "S div 2"] show ?case by simp
qed


lemma bottleneck_size:
  assumes "32 \<le> S"
  shows "16 \<le> S div 2 ^ nat (ilog2 S - 4)"
proof -
  from assms have one: "1 \<le> S" by simp
  from assms ilog2_ge_iff [OF one, of 5] have l: "5 \<le> ilog2 S" by simp
  then have "nat (ilog2 S) = nat (ilog2 S - 4) + 4" by simp
  then have "(2::int) ^ nat (ilog2 S) = 16 * 2 ^ nat (ilog2 S - 4)" by (simp add: power_add)
  with ilog2_bounds [OF one] have "16 * 2 ^ nat (ilog2 S - 4) \<le> S" by simp
  then have "16 * 2 ^ nat (ilog2 S - 4) div 2 ^ nat (ilog2 S - 4) \<le> S div 2 ^ nat (ilog2 S - 4)"
    by (intro zdiv_mono1) simp_all
  then show ?thesis by simp
qed

lemma Generator_forward_shape_general:
  assumes "Generator_init S sd m = Inr g"
    "shape x = [B, 3, S, S]" "shape s = [B, sd]" "1 \<le> B" "S \<le> 2 ^ 14" "1 \<le> m"
  shows "\<exists>out. Generator_forward K g x s = Inr out
     \<and> shape out = [B, 3, S div 2 ^ nat (ilog2 S - 4) * 2 ^ nat (ilog2 S - 4),
                     S div 2 ^ nat (ilog2 S - 4) * 2 ^ nat (ilog2 S - 4)]"
proof -
  let ?n = "nat (ilog2 S - 4)"
  let ?c0 = "2 ^ 14 div S"
  let ?S' = "S div 2 ^ ?n * 2 ^ ?n"
  let ?ci = "\<lparr>in_channels = 3, out_channels = ?c0, kernel_size = 3,
                     stride = 1, padding = 1, bias = True\<rparr>"
  let ?no = "\<lparr>num_features = ?c0, affine = True\<rparr>"
  let ?co = "\<lparr>in_channels = ?c0, out_channels = 3, kernel_size = 1,
                      stride = 1, padding = 0, bias = True\<rparr>"
  from assms(1) obtain st st' where
    ci: "g_conv_in g = ?ci" and
    co: "g_conv_out g = [M_InstanceNorm2d ?no, M_Activation (LeakyReLU 0.2), M_Conv2d ?co]"
    and "0 < S"
    and "Generator_down_loop ?n sd m
       \<lparr>gs_dim_in = ?c0, gs_dim_out = None, gs_encoder = [], gs_decoder = []\<rparr> = Inr st"
    and "Generator_bottleneck_loop 2 sd st = Inr st'"
    and "g_encoder g = gs_encoder st'" "g_decoder g = gs_decoder st'"
    by (rule Generator_init_Inr)
  from Generator_large [OF assms(1)] have big: "32 \<le> S" by simp
  note inv = Generator_init_inv [OF assms(1)]
  from inv(2) obtain c' where ch: "enc_chain ?c0 (g_encoder g) c'" ..
  note built = Generator_init_built [OF assms(1)]
  from bottleneck_size [OF big] have bs: "2 \<le> S div 2 ^ ?n" by simp
  then have ok: "sizes_ok (map rb_downsample (g_encoder g)) S"
    by (simp add: inv(4) sizes_ok_pattern)
  have rs: "round_size (map rb_downsample (g_encoder g)) S = ?S'"
    by (simp add: inv(4) round_size_pattern)
  from big assms(5) have "2 ^ 14 div 2 ^ 14 \<le> (2::int) ^ 14 div S"
    by (intro zdiv_mono2) simp_all
  then have c0: "1 \<le> ?c0" by simp
  note pos = enc_chain_pos [OF ch inv(3) c0 assms(6)]
  let ?x1 = "\<lparr>shape = [B, ?c0, S, S], elem = k_conv2d (k_sub K (Attr ''conv_in'')) ?ci x\<rparr>"
  have x1: "conv2d_forward (k_sub K (Attr ''conv_in'')) (g_conv_in g) x = Inr ?x1"
    using assms(2) big c0 by (simp add: conv2d_forward_def conv2d_out_def ci)
  have sx1: "shape ?x1 = [B, ?c0, S, S]" by simp
  from encoder_decoder_round [OF built inv(1) ch sx1 assms(3,4) ok ok pos,
      of "k_sub K (Attr ''encoder'')" 0 "k_sub K (Attr ''decoder'')" 0] obtain t u where
    t: "encoder_forward (k_sub K (Attr ''encoder'')) 0 (g_encoder g) ?x1 = Inr t" and
    u: "decoder_forward (k_sub K (Attr ''decoder'')) 0 (g_decoder g) t s = Inr u" and
    su: "shape u = [B, ?c0, ?S', ?S']"
    unfolding rs by blast
  from round_size_ge [OF ok] rs have s2: "2 \<le> ?S'" by simp
  then have "2 * 2 \<le> ?S' * ?S'" by (intro mult_mono) simp_all
  then have ne: "?S' * ?S' \<noteq> 1" by simp
  let ?Ko = "k_sub K (Attr ''conv_out'')"
  let ?v1 = "\<lparr>shape = [B, ?c0, ?S', ?S'], elem = k_instance_norm (k_sub ?Ko (Item 0)) ?no u\<rparr>"
  have v1: "instance_norm_forward (k_sub ?Ko (Item 0)) ?no u = Inr ?v1"
    using su ne c0 assms(4) by (intro instance_norm_forward_ok) simp_all
  have "\<exists>out. Sequential_forward ?Ko (g_conv_out g) u = Inr out \<and> shape out = [B, 3, ?S', ?S']"
    unfolding co using s2 v1 c0
    by (simp add: Sequential_forward_def conv2d_forward_def conv2d_out_def)
  with t u show ?thesis
    unfolding Generator_forward_def x1 by simp
qed

lemma ilog2_33: "ilog2 33 = 5" by (simp add: ilog2.simps)

lemma Generator_forward_odd_size:
  "\<exists>g out. Generator_init 33 64 512 = Inr g
     \<and> Generator_forward K0 g (zeros [1, 3, 33, 33]) (zeros [1, 64]) = Inr out
     \<and> shape out = [1, 3, 32, 32]"
proof -
  obtain g where g: "Generator_init 33 64 512 = Inr g"
    using Generator_init_ok [of 33 64 512] by auto
  have x: "shape (zeros [1, 3, 33, 33]) = [1, 3, 33, 33]" and s: "shape (zeros [1, 64]) = [1, 64]"
    by (simp_all add: zeros_def)
  have bd: "(1::int) \<le> 1" "(33::int) \<le> 2 ^ 14" "(1::int) \<le> 512" by simp_all
  from Generator_forward_shape_general [OF g x s bd, of K0] g show ?thesis
    by (simp add: ilog2_33)
qed

section \<open>The mapping network\<close>

text \<open>
  Claim C1. With the default configuration (\<open>latent_dim = 16\<close>, \<open>style_dim = 64\<close>,
  \<open>num_domains = 2\<close>), \<open>MappingNetwork.forward\<close> on a latent of shape \<open>(1, 16)\<close> and domain
  index 0 returns a tensor of shape \<open>(1, 64)\<close>. The code does not: after the shared trunk
  has run, the loop reads the name \<open>unshared\<close>, which is bound neither in the function nor
  in the module (the attribute is \<open>self.unshared\<close>), and the call raises \<open>NameError\<close>.
\<close>

theorem MappingNetwork_forward_default_raises:
  "rshape (rbind (MappingNetwork_init 16 64 2)
     (\<lambda>m. MappingNetwork_forward K0 m (zeros [1, 16]) [0])) = Inl (NameError ''unshared'')"
  by (simp add: MappingNetwork_init_def Linear_def upt_3 upt_2 MappingNetwork_forward_def
      Sequential_forward_def linear_forward_def linear_shape_def zeros_def global_layers_def
      module_globals_def)

section \<open>The style encoder\<close>

text \<open>
  Claim C2. With the default configuration (\<open>img_size = 256\<close>, \<open>style_dim = 64\<close>,
  \<open>num_domains = 2\<close>), \<open>StyleEncoder.forward\<close> on an image of shape \<open>(1, 3, 256, 256)\<close>
  and domain index 0 returns a tensor of shape \<open>(1, 64)\<close>. The code does not: the heads,
  linear layers with 512 input features, are called on the image, whose last dimension is
  256, and the call raises.
\<close>

theorem StyleEncoder_forward_default_raises:
  "rshape (rbind (StyleEncoder_init 256 64 2 512)
     (\<lambda>e. StyleEncoder_forward K0 e (zeros [1, 3, 256, 256]) [0])) = Inl RuntimeError"
proof -
  obtain e where e: "StyleEncoder_init 256 64 2 512 = Inr e"
    using StyleEncoder_init_ok [of 256 64 512 2] by auto
  have x: "shape (zeros [1, 3, 256, 256]) = [1, 3, 256, 256]" by (simp add: zeros_def)
  from StyleEncoder_default [OF e x, of K0 "[0]"] show ?thesis
    by (auto simp: e StyleEncoder_forward_split)
qed

text \<open>
  Claim C3. In \<open>StyleEncoder.forward\<close> each per-domain linear head is applied to the raw
  input \<open>x\<close>, not to the flattened output \<open>h\<close> of the shared pyramid: \<open>h\<close> is computed
  (the call raises when its computation does) and no head consumes it. For an encoder the
  constructor returns, with \<open>img_size\<close> up to \<open>2 ^ 14\<close> and \<open>max_conv_dim\<close> at least 1
  (every convolution of the pyramid has a channel), and a batch of images of the configured
  size, \<open>h\<close> has one row of \<open>dim_out\<close> features per example, every head takes
  \<open>dim_out\<close> input features, and the result of the call is what the heads give on \<open>x\<close>.
\<close>

theorem StyleEncoder_heads_read_raw_input:
  assumes "StyleEncoder_init img_size style_dim num_domains max_conv_dim = Inr e"
    and "shape x = [B, 3, img_size, img_size]" and "0 < B"
    and "img_size div 2 ^ nat (ilog2 img_size - 2) = 4"
    and "img_size \<le> 2 ^ 14" and "1 \<le> max_conv_dim"
  shows "StyleEncoder_forward K e x y
       = rbind (StyleEncoder_features K e x) (\<lambda>h. heads_on K (se_unshared e) x y)
     \<and> (\<exists>h dim_out. StyleEncoder_features K e x = Inr h \<and> shape h = [B, dim_out]
         \<and> se_unshared e
              = replicate (nat num_domains) \<lparr>in_features = dim_out, out_features = style_dim\<rparr>
         \<and> StyleEncoder_forward K e x y = heads_on K (se_unshared e) x y)"
proof -
  from StyleEncoder_features_shape [OF assms(1,2,4,3,5,6), of K] obtain h where
    h: "StyleEncoder_features K e x = Inr h"
    "shape h = [B, stage_width (nat (ilog2 img_size - 2)) max_conv_dim (2 ^ 14 div img_size)]"
    "se_unshared e = replicate (nat num_domains)
          \<lparr>in_features = stage_width (nat (ilog2 img_size - 2)) max_conv_dim (2 ^ 14 div img_size),
           out_features = style_dim\<rparr>"
    by blast
  have "StyleEncoder_forward K e x y = heads_on K (se_unshared e) x y"
    by (simp add: StyleEncoder_forward_split h(1))
  with h have "\<exists>h dim_out. StyleEncoder_features K e x = Inr h \<and> shape h = [B, dim_out]
         \<and> se_unshared e
              = replicate (nat num_domains) \<lparr>in_features = dim_out, out_features = style_dim\<rparr>
         \<and> StyleEncoder_forward K e x y = heads_on K (se_unshared e) x y"
    by blast
  then show ?thesis by (simp add: StyleEncoder_forward_split)
qed

theorem StyleEncoder_heads_read_raw_input_witness:
  "\<exists>e h. StyleEncoder_init 256 64 2 512 = Inr e
     \<and> StyleEncoder_features K0 e (zeros [1, 3, 256, 256]) = Inr h \<and> shape h = [1, 512]
     \<and> rshape (heads_on K0 (se_unshared e) h [0]) = Inr [1, 64]
     \<and> heads_on K0 (se_unshared e) (zeros [1, 3, 256, 256]) [0] = Inl RuntimeError
     \<and> StyleEncoder_forward K0 e (zeros [1, 3, 256, 256]) [0] = Inl RuntimeError"
proof -
  obtain e where e: "StyleEncoder_init 256 64 2 512 = Inr e"
    using StyleEncoder_init_ok [of 256 64 512 2] by auto
  have x: "shape (zeros [1, 3, 256, 256]) = [1, 3, 256, 256]" by (simp add: zeros_def)
  have s: "(256::int) div 2 ^ nat (ilog2 256 - 2) = 4" by (simp add: ilog2_256)
  have bd: "(256::int) \<le> 2 ^ 14" "(1::int) \<le> 512" by simp_all
  from StyleEncoder_heads_read_raw_input [OF e x _ s bd, of K0 "[0]"] obtain h dim_out where
    h: "StyleEncoder_features K0 e (zeros [1, 3, 256, 256]) = Inr h" "shape h = [1, dim_out]"
    and fw: "StyleEncoder_forward K0 e (zeros [1, 3, 256, 256]) [0]
       = heads_on K0 (se_unshared e) (zeros [1, 3, 256, 256]) [0]"
    by auto
  have one: "(0::int) < 1" by simp
  note df = StyleEncoder_default [OF e x one, of K0 "[0]"]
  from df h have sh: "shape h = [1, 512]" by auto
  from df have un: "se_unshared e = [\<lparr>in_features = 512, out_features = 64\<rparr>,
                          \<lparr>in_features = 512, out_features = 64\<rparr>]"
    and hx: "heads_on K0 (se_unshared e) (zeros [1, 3, 256, 256]) [0] = Inl RuntimeError"
    by blast+
  have "rshape (heads_on K0 (se_unshared e) h [0]) = Inr [1, 64]"
    by (simp add: heads_on_def un linear_forward_def linear_shape_def sh stack_def
        index2_def wrap_index_def LongTensor_range_def)
  with e h(1) sh hx fw show ?thesis by auto
qed

section \<open>Domain indices out of range\<close>

text \<open>
  Claim C4 as stated: in every head-selecting forward pass, a domain index outside
  \<open>[0, num_domains)\<close> makes the call fail with an index-range error and never selects
  another domain's head. The indexing \<open>out[indx, y]\<close> accepts a negative index and counts it
  from the end: with the default discriminator (two domains) and \<open>y = [-1]\<close> the call
  returns, and what it returns is the logit of domain 1.
\<close>

theorem negative_domain_index_counterexample:
  "rshape (rbind (Discriminator_init 256 2 512)
      (\<lambda>d. Discriminator_forward K1 d (zeros [1, 3, 256, 256]) [- 1])) = Inr [1]
 \<and> relem (rbind (Discriminator_init 256 2 512)
      (\<lambda>d. Discriminator_forward K1 d (zeros [1, 3, 256, 256]) [- 1])) [0] = 1
 \<and> relem (rbind (Discriminator_init 256 2 512)
      (\<lambda>d. Sequential_forward K1 (d_blocks d) (zeros [1, 3, 256, 256]))) [0, 1, 0, 0] = 1
 \<and> relem (rbind (Discriminator_init 256 2 512)
      (\<lambda>d. Sequential_forward K1 (d_blocks d) (zeros [1, 3, 256, 256]))) [0, 0, 0, 0] = 0"
proof -
  obtain d where d: "Discriminator_init 256 2 512 = Inr d"
    using Discriminator_init_ok [of 256 2 512] by auto
  have x: "shape (zeros [1, 3, 256, 256]) = [1, 3, 256, 256]" by (simp add: zeros_def)
  have s: "(256::int) div 2 ^ nat (ilog2 256 - 2) = 4" by (simp add: ilog2_256)
  have bd: "(256::int) \<le> 2 ^ 14" "(1::int) \<le> 512" "(1::int) \<le> 1" "(1::int) \<le> 2"
    by simp_all
  from Discriminator_pyramid_shape [OF d x s bd, of K1] obtain logits where
    lg: "Sequential_forward K1 (d_blocks d) (zeros [1, 3, 256, 256]) = Inr logits"
    "shape logits = [1, 2, 1, 1]" by blast
  from Discriminator_logits_elem [OF d lg(1)]
  have e: "elem logits idx = real_of_int (idx ! 1)" for idx
    by auto
  have "\<exists>out. Discriminator_forward K1 d (zeros [1, 3, 256, 256]) [- 1] = Inr out
      \<and> shape out = [1] \<and> elem out [0] = elem logits [0, 1, 0, 0]"
    using Discriminator_forward_rows [OF lg, of "[- 1]"] by simp
  then obtain out where
    out: "Discriminator_forward K1 d (zeros [1, 3, 256, 256]) [- 1] = Inr out" "shape out = [1]"
    and el: "elem out [0] = elem logits [0, 1, 0, 0]"
    by blast
  from el have "elem out [0] = 1" by (simp add: e)
  with out lg e show ?thesis by (simp add: d)
qed

text \<open>
  Claim C4, amended. In \<open>Discriminator.forward\<close>, once the pyramid has computed the logits
  of all domains for the batch (shape \<open>(batch, num_domains, 1, 1)\<close>) and \<open>y\<close> has one
  index per example, the call fails with an index-range error when some \<open>y[i]\<close> is below
  \<open>-num_domains\<close> or not below \<open>num_domains\<close>; when every index is in
  \<open>[-num_domains, num_domains)\<close> the call returns, and for \<open>-num_domains \<le> y[i] < 0\<close>
  entry \<open>i\<close> is the logit of domain \<open>y[i] + num_domains\<close>: a negative index counts from
  the end. The two other head-selecting passes do not reach their indexing with outputs of
  the heads on the shared feature: \<open>MappingNetwork.forward\<close> raises before it, and
  \<open>StyleEncoder.forward\<close> runs its heads on the image.
\<close>

theorem domain_index_range:
  assumes "Sequential_forward K (d_blocks d) x = Inr logits"
    and "shape logits = [B, nd, 1, 1]" and "0 < B" and "int (length y) = B"
  shows "if list_all (\<lambda>v. - nd \<le> v \<and> v < nd) y
       then \<exists>out. Discriminator_forward K d x y = Inr out \<and> shape out = [B]
              \<and> (\<forall>i < length y. elem out [int i]
                     = elem logits [int i, if y ! i < 0 then y ! i + nd else y ! i, 0, 0])
       else Discriminator_forward K d x y = Inl IndexError"
proof -
  from assms(4) have l: "int (length y) \<le> B" by simp
  from Discriminator_forward_rows [OF assms(1,2,3) l] show ?thesis
    unfolding assms(4) .
qed

theorem domain_index_range_witness:
  "\<exists>d. Discriminator_init 256 2 512 = Inr d
     \<and> Discriminator_forward K1 d (zeros [1, 3, 256, 256]) [2] = Inl IndexError
     \<and> Discriminator_forward K1 d (zeros [1, 3, 256, 256]) [- 3] = Inl IndexError
     \<and> (\<exists>out. Discriminator_forward K1 d (zeros [1, 3, 256, 256]) [- 2] = Inr out
            \<and> shape out = [1] \<and> elem out [0] = 0)
     \<and> (\<exists>out. Discriminator_forward K1 d (zeros [1, 3, 256, 256]) [1] = Inr out
            \<and> shape out = [1] \<and> elem out [0] = 1)"
proof -
  obtain d where d: "Discriminator_init 256 2 512 = Inr d"
    using Discriminator_init_ok [of 256 2 512] by auto
  have x: "shape (zeros [1, 3, 256, 256]) = [1, 3, 256, 256]" by (simp add: zeros_def)
  have s: "(256::int) div 2 ^ nat (ilog2 256 - 2) = 4" by (simp add: ilog2_256)
  have bd: "(256::int) \<le> 2 ^ 14" "(1::int) \<le> 512" "(1::int) \<le> 1" "(1::int) \<le> 2"
    by simp_all
  from Discriminator_pyramid_shape [OF d x s bd, of K1] obtain logits where
    lg: "Sequential_forward K1 (d_blocks d) (zeros [1, 3, 256, 256]) = Inr logits"
    "shape logits = [1, 2, 1, 1]" by blast
  from Discriminator_logits_elem [OF d lg(1)]
  have e: "elem logits idx = real_of_int (idx ! 1)" for idx
    by auto
  have one: "(0::int) < 1" by simp
  note D = domain_index_range [OF lg one]
  from D [of "[2]"]
  have d1: "Discriminator_forward K1 d (zeros [1, 3, 256, 256]) [2] = Inl IndexError" by simp
  from D [of "[- 3]"]
  have d2: "Discriminator_forward K1 d (zeros [1, 3, 256, 256]) [- 3] = Inl IndexError" by simp
  from D [of "[- 2]"]
  have d3: "\<exists>out. Discriminator_forward K1 d (zeros [1, 3, 256, 256]) [- 2] = Inr out
            \<and> shape out = [1] \<and> elem out [0] = 0" by (auto simp: e)
  from D [of "[1]"]
  have d4: "\<exists>out. Discriminator_forward K1 d (zeros [1, 3, 256, 256]) [1] = Inr out
            \<and> shape out = [1] \<and> elem out [0] = 1" by (auto simp: e)
  from d d1 d2 d3 d4 show ?thesis by blast
qed

section \<open>The generator keeps the shape of the image\<close>

text \<open>
  Claim C5. For every valid configuration \<open>(img_size, style_dim, max_conv_dim)\<close>, the
  constructor returns a generator, and for every input image of shape
  \<open>(batch, 3, img_size, img_size)\<close> with a style vector of shape \<open>(batch, style_dim)\<close>
  (a batch of at least one example) \<open>Generator.forward\<close> returns a tensor of shape
  \<open>(batch, 3, img_size, img_size)\<close>: the spatial dimensions and the three channels of the
  input. A configuration is valid as \<open>valid_config\<close> says; every power of two from 32 to
  16384 is a valid \<open>img_size\<close>.
\<close>

theorem Generator_forward_preserves_shape:
  assumes "valid_config img_size style_dim max_conv_dim"
  shows "\<exists>g. Generator_init img_size style_dim max_conv_dim = Inr g
     \<and> (\<forall>K x s B. 1 \<le> B \<and> shape x = [B, 3, img_size, img_size]
                    \<and> shape s = [B, style_dim] \<longrightarrow>
            (\<exists>out. Generator_forward K g x s = Inr out
                \<and> shape out = [B, 3, img_size, img_size]))"
proof -
  from assms have v: "32 \<le> img_size" "0 \<le> style_dim" "0 \<le> max_conv_dim"
    and dv: "2 ^ nat (ilog2 img_size - 4) dvd img_size"
    and bd: "img_size \<le> 2 ^ 14" "1 \<le> max_conv_dim"
    by (simp_all add: valid_config_def)
  from Generator_init_ok [OF v] obtain g where
    g: "Generator_init img_size style_dim max_conv_dim = Inr g" ..
  from dv have restore: "img_size div 2 ^ nat (ilog2 img_size - 4) * 2 ^ nat (ilog2 img_size - 4)
      = img_size" by simp
  have "\<exists>out. Generator_forward K g x s = Inr out \<and> shape out = [B, 3, img_size, img_size]"
    if "1 \<le> B \<and> shape x = [B, 3, img_size, img_size] \<and> shape s = [B, style_dim]"
    for K x s B
  proof -
    from that have p: "shape x = [B, 3, img_size, img_size]" "shape s = [B, style_dim]" "1 \<le> B"
      by simp_all
    from Generator_forward_shape_general [OF g p bd, of K] show ?thesis by (simp only: restore)
  qed
  with g show ?thesis by blast
qed

theorem Generator_forward_preserves_shape_witness:
  "valid_config 256 64 512
 \<and> (\<exists>g out. Generator_init 256 64 512 = Inr g
      \<and> Generator_forward K0 g (zeros [1, 3, 256, 256]) (zeros [1, 64]) = Inr out
      \<and> shape out = [1, 3, 256, 256])"
proof -
  have v: "valid_config 256 64 512" by (simp add: valid_config_def ilog2_256)
  from Generator_forward_preserves_shape [OF v] obtain g where
    g: "Generator_init 256 64 512 = Inr g" and
    f: "\<forall>K x s B. 1 \<le> B \<and> shape x = [B, 3, 256, 256] \<and> shape s = [B, 64] \<longrightarrow>
            (\<exists>out. Generator_forward K g x s = Inr out \<and> shape out = [B, 3, 256, 256])"
    by blast
  have "1 \<le> (1::int) \<and> shape (zeros [1, 3, 256, 256]) = [1, 3, 256, 256]
      \<and> shape (zeros [1, 64]) = [1, 64]"
    by (simp add: zeros_def)
  with f have "\<exists>out. Generator_forward K0 g (zeros [1, 3, 256, 256]) (zeros [1, 64]) = Inr out
      \<and> shape out = [1, 3, 256, 256]" by blast
  with v g show ?thesis by blast
qed

section \<open>The generator's widths mirror around the bottleneck\<close>

text \<open>
  Claim C6. In \<open>Generator.__init__\<close> the channel widths of the encoder and the decoder form a
  palindrome around the bottleneck. Whenever the constructor returns a generator: the
  decoder has as many blocks as the encoder; the decoder block in the mirrored position of
  an encoder block that takes width \<open>v\<close> to width \<open>w\<close> takes \<open>w\<close> to \<open>v\<close> and upsamples
  exactly when the encoder block downsamples; a downsampling stage doubles the width up to
  \<open>max_conv_dim\<close> and a stage at the bottleneck keeps it; the downsampling stages are the
  first blocks of the encoder, followed by two at the bottleneck, and for \<open>img_size\<close> up
  to \<open>2 ^ 14\<close> there are \<open>int(log2(img_size)) - 4\<close> of them; and along the whole
  forward pass (input stem, encoder, decoder, output stem) every block consumes the width
  the block before it emits.
\<close>

theorem Generator_init_palindrome:
  assumes "Generator_init img_size style_dim max_conv_dim = Inr g"
  shows "length (g_decoder g) = length (g_encoder g)
       \<and> (\<forall>i < length (g_encoder g).
            let e = g_encoder g ! i; d = g_decoder g ! (length (g_encoder g) - 1 - i) in
              ab_dim_in d = rb_dim_out e \<and> ab_dim_out d = rb_dim_in e
            \<and> ab_upsample d = rb_downsample e
            \<and> rb_dim_out e = (if rb_downsample e then min (rb_dim_in e * 2) max_conv_dim
                               else rb_dim_in e))
       \<and> (\<exists>n. map rb_downsample (g_encoder g) = replicate n True @ replicate 2 False
              \<and> (img_size \<le> 2 ^ 14 \<longrightarrow> int n = ilog2 img_size - 4))
       \<and> chained (Generator_widths g)"
proof -
  note inv = Generator_init_inv [OF assms]
  from inv(1) have len: "length (g_decoder g) = length (g_encoder g)"
    by (auto dest: list_all2_lengthD)
  have mir: "mirrored style_dim (g_encoder g ! i) (g_decoder g ! (length (g_encoder g) - 1 - i))"
    if "i < length (g_encoder g)" for i
  proof -
    let ?j = "length (g_encoder g) - 1 - i"
    from that have j: "?j < length (rev (g_encoder g))" by simp
    from list_all2_nthD [OF inv(1) j]
    have "mirrored style_dim (rev (g_encoder g) ! ?j) (g_decoder g ! ?j)" .
    moreover from that have "rev (g_encoder g) ! ?j = g_encoder g ! i"
      by (simp add: rev_nth)
    ultimately show ?thesis by simp
  qed
  have stage: "stage_widths max_conv_dim (g_encoder g ! i)" if "i < length (g_encoder g)" for i
    using inv(3) that by (simp add: list_all_length)
  have per: "\<forall>i < length (g_encoder g).
            let e = g_encoder g ! i; d = g_decoder g ! (length (g_encoder g) - 1 - i) in
              ab_dim_in d = rb_dim_out e \<and> ab_dim_out d = rb_dim_in e
            \<and> ab_upsample d = rb_downsample e
            \<and> rb_dim_out e = (if rb_downsample e then min (rb_dim_in e * 2) max_conv_dim
                               else rb_dim_in e)"
  proof (intro allI impI)
    fix i assume i: "i < length (g_encoder g)"
    from mir [OF i] stage [OF i]
    show "let e = g_encoder g ! i; d = g_decoder g ! (length (g_encoder g) - 1 - i) in
              ab_dim_in d = rb_dim_out e \<and> ab_dim_out d = rb_dim_in e
            \<and> ab_upsample d = rb_downsample e
            \<and> rb_dim_out e = (if rb_downsample e then min (rb_dim_in e * 2) max_conv_dim
                               else rb_dim_in e)"
      unfolding Let_def mirrored_def stage_widths_def
      by (auto dest: AdaResBlock_init_dims)
  qed
  from inv(2) obtain c' where ch: "enc_chain (2 ^ 14 div img_size) (g_encoder g) c'" ..
  from assms obtain
    ci: "g_conv_in g = \<lparr>in_channels = 3, out_channels = 2 ^ 14 div img_size, kernel_size = 3,
                     stride = 1, padding = 1, bias = True\<rparr>" and
    co: "g_conv_out g = [M_InstanceNorm2d \<lparr>num_features = 2 ^ 14 div img_size, affine = True\<rparr>,
           M_Activation (LeakyReLU 0.2),
           M_Conv2d \<lparr>in_channels = 2 ^ 14 div img_size, out_channels = 3, kernel_size = 1,
                      stride = 1, padding = 0, bias = True\<rparr>]"
    by (rule Generator_init_Inr)
  have "chained (Generator_widths g)"
    using mirror_chain [OF ch inv(1), of 3 "2 ^ 14 div img_size" "[(2 ^ 14 div img_size, 3)]"]
    by (simp add: Generator_widths_def ci co List.map_filter_simps)
  moreover from inv(5) have "int (nat (ilog2 img_size - 4)) = ilog2 img_size - 4" by simp
  with inv(4) have "\<exists>n. map rb_downsample (g_encoder g) = replicate n True @ replicate 2 False
              \<and> (img_size \<le> 2 ^ 14 \<longrightarrow> int n = ilog2 img_size - 4)"
    by blast
  ultimately show ?thesis using len per by simp
qed

theorem Generator_init_palindrome_witness:
  "\<exists>g. Generator_init 256 64 512 = Inr g
     \<and> length (g_decoder g) = length (g_encoder g)
     \<and> map rb_downsample (g_encoder g) = [True, True, True, True, False, False]
     \<and> chained (Generator_widths g)
     \<and> (\<forall>i < length (g_encoder g).
            ab_dim_in (g_decoder g ! (length (g_encoder g) - 1 - i)) = rb_dim_out (g_encoder g ! i))"
proof -
  obtain g where g: "Generator_init 256 64 512 = Inr g"
    using Generator_init_ok [of 256 64 512] by auto
  have l: "ilog2 256 = 8" by (simp add: ilog2.simps)
  from Generator_init_palindrome [OF g] g show ?thesis
    by (auto simp: l Let_def eval_nat_numeral)
qed

section \<open>The discriminator returns each example's own logit\<close>

text \<open>
  Claim C7. For a batch of images on which the pyramid computes one logit per example and
  domain (an output of shape \<open>(batch, num_domains, 1, 1)\<close>, as it does for images of the
  configured size) and a vector \<open>y\<close> of domain indices, one per example, each in
  \<open>[0, num_domains)\<close>, \<open>Discriminator.forward\<close> returns a one-dimensional tensor of length
  batch whose \<open>i\<close>-th entry is the logit the pyramid computed for domain \<open>y[i]\<close> of example
  \<open>i\<close>. The logits of the other domains are computed and not returned.
\<close>

theorem Discriminator_forward_gathers:
  assumes "Sequential_forward K (d_blocks d) x = Inr logits"
    and "shape logits = [B, num_domains, 1, 1]" and "0 < B"
    and "int (length y) = B" and "list_all (\<lambda>v. 0 \<le> v \<and> v < num_domains) y"
  shows "\<exists>out. Discriminator_forward K d x y = Inr out \<and> shape out = [B]
     \<and> (\<forall>i < length y. elem out [int i] = elem logits [int i, y ! i, 0, 0])"
proof -
  from assms(5) have r: "list_all (\<lambda>v. - num_domains \<le> v \<and> v < num_domains) y"
    by (auto simp: list_all_iff)
  from assms(4) have l: "int (length y) \<le> B" by simp
  from Discriminator_forward_rows [OF assms(1,2,3) l] r obtain out where
    out: "Discriminator_forward K d x y = Inr out" "shape out = [int (length y)]" and
    el: "\<forall>i < length y. elem out [int i]
             = elem logits [int i, if y ! i < 0 then y ! i + num_domains else y ! i, 0, 0]"
    by auto
  have "elem out [int i] = elem logits [int i, y ! i, 0, 0]" if "i < length y" for i
  proof -
    from assms(5) that have "0 \<le> y ! i" by (simp add: list_all_length)
    with el that show ?thesis by auto
  qed
  with out assms(4) show ?thesis by auto
qed

theorem Discriminator_forward_gathers_witness:
  "\<exists>d logits out. Discriminator_init 256 2 512 = Inr d
     \<and> Sequential_forward K1 (d_blocks d) (zeros [2, 3, 256, 256]) = Inr logits
     \<and> shape logits = [2, 2, 1, 1]
     \<and> Discriminator_forward K1 d (zeros [2, 3, 256, 256]) [1, 0] = Inr out
     \<and> shape out = [2] \<and> elem out [0] = 1 \<and> elem out [1] = 0"
proof -
  obtain d where d: "Discriminator_init 256 2 512 = Inr d"
    using Discriminator_init_ok [of 256 2 512] by auto
  have x: "shape (zeros [2, 3, 256, 256]) = [2, 3, 256, 256]" by (simp add: zeros_def)
  have s: "(256::int) div 2 ^ nat (ilog2 256 - 2) = 4" by (simp add: ilog2_256)
  have bd: "(256::int) \<le> 2 ^ 14" "(1::int) \<le> 512" "(1::int) \<le> 2" by simp_all
  from Discriminator_pyramid_shape [OF d x s bd(1,2,3,3), of K1] obtain logits where
    lg: "Sequential_forward K1 (d_blocks d) (zeros [2, 3, 256, 256]) = Inr logits"
    "shape logits = [2, 2, 1, 1]" by blast
  from Discriminator_logits_elem [OF d lg(1)] have e: "elem logits idx = real_of_int (idx ! 1)" for idx
    by auto
  from Discriminator_forward_gathers [OF lg, of "[1, 0]"] obtain out where
    out: "Discriminator_forward K1 d (zeros [2, 3, 256, 256]) [1, 0] = Inr out" "shape out = [2]"
    and el: "\<forall>i < length [1, 0 :: int]. elem out [int i] = elem logits [int i, [1, 0] ! i, 0, 0]"
    by auto
  from el [rule_format, of 0] el [rule_format, of 1]
  have "elem out [0] = 1" "elem out [1] = 0" by (simp_all add: e)
  with d lg out show ?thesis by blast
qed
section \<open>The residual block\<close>

text \<open>
  Claim C8. For a block built with \<open>ResBlock(dim_in, dim_out, downsample, normalize)\<close>, the
  default activation (leaky with slope 0.2) and at least one channel on each side, and for
  every batched feature map \<open>x\<close> with at least one example (whatever its channels and its
  spatial size), \<open>ResBlock.forward(x)\<close> is \<open>(residual(x) + shortcut(x)) / sqrt(2)\<close>,
  element by element, with the two paths as the specification words them; the two paths
  give the same shape. When a path raises, so does the call, with the same exception.
\<close>

theorem ResBlock_forward_formula:
  assumes "ResBlock_init dim_in dim_out style_dim (LeakyReLU 0.2) downsample normalise = Inr blk"
    and "1 \<le> dim_in" and "1 \<le> dim_out"
    and "shape x = [B, C, H, W]" and "1 \<le> B"
  shows "(case spec_residual_path K dim_in dim_out downsample normalise x of
            Inl e \<Rightarrow> ResBlock_forward K blk x = Inl e
          | Inr residual \<Rightarrow>
              (case spec_shortcut_path K dim_in dim_out downsample x of
                 Inl e \<Rightarrow> ResBlock_forward K blk x = Inl e
               | Inr shortcut \<Rightarrow>
                   (\<exists>out. ResBlock_forward K blk x = Inr out
                      \<and> shape out = shape residual \<and> shape shortcut = shape residual
                      \<and> (\<forall>idx. valid_index (shape out) idx \<longrightarrow>
                            elem out idx = (elem residual idx + elem shortcut idx) / sqrt 2))))"
proof (cases "spec_residual_path K dim_in dim_out downsample normalise x")
  case (Inl e)
  then show ?thesis
    by (simp add: ResBlock_forward_def ResBlock_paths_spec [OF assms(1)])
next
  case r: (Inr residual)
  show ?thesis
  proof (cases "spec_shortcut_path K dim_in dim_out downsample x")
    case (Inl e)
    with r show ?thesis
      by (simp add: ResBlock_forward_def ResBlock_paths_spec [OF assms(1)])
  next
    case s: (Inr shortcut)
    from spec_residual_path_Inr [OF r assms(4)] have
      c: "C = dim_in" and
      sr: "shape residual = [B, dim_out, if downsample then H div 2 else H,
                             if downsample then W div 2 else W]" by simp_all
    from assms(4) c have x: "shape x = [B, dim_in, H, W]" by simp
    from spec_shortcut_path_Inr [OF s x] sr have eq: "shape shortcut = shape residual" by simp
    let ?t = "\<lparr>shape = shape residual,
        elem = (\<lambda>idx. elem residual (broadcast_index (shape residual) idx)
                     + elem shortcut (broadcast_index (shape shortcut) idx))\<rparr>"
    have add: "tensor_add residual shortcut = Inr ?t"
      by (simp add: tensor_add_def tensor_binop_def eq)
    let ?out = "tensor_div_scalar ?t (sqrt 2)"
    have fw: "ResBlock_forward K blk x = Inr ?out"
      by (simp only: ResBlock_forward_def ResBlock_paths_spec [OF assms(1)] r s rbind_Inr add)
    have "\<forall>idx. valid_index (shape ?out) idx \<longrightarrow>
        elem ?out idx = (elem residual idx + elem shortcut idx) / sqrt 2"
      by (simp add: tensor_div_scalar_def eq broadcast_index_valid)
    moreover have "shape ?out = shape residual" by (simp add: tensor_div_scalar_def)
    ultimately have "\<exists>out. ResBlock_forward K blk x = Inr out
                      \<and> shape out = shape residual \<and> shape shortcut = shape residual
                      \<and> (\<forall>idx. valid_index (shape out) idx \<longrightarrow>
                            elem out idx = (elem residual idx + elem shortcut idx) / sqrt 2)"
      using fw eq by blast
    then show ?thesis by (simp only: r s sum.case)
  qed
qed

text \<open>
  Two instances, with the parameters \<open>K_block\<close> on the feature map \<open>ramp\<close>. In the
  second the block keeps its two channels, so that \<open>conv_1\<close> and \<open>conv_2\<close> have the same
  hyper-parameters, as \<open>norm_1\<close> and \<open>norm_2\<close> always have, and the shortcut is the
  identity.
\<close>

theorem ResBlock_forward_formula_witness:
  "(\<exists>blk out. ResBlock_init 2 3 64 (LeakyReLU 0.2) True True = Inr blk
     \<and> ResBlock_forward (K_block '''') blk (ramp [1, 2, 4, 4]) = Inr out
     \<and> shape out = [1, 3, 2, 2] \<and> elem out [0, 1, 1, 0] = (11 + 3) / sqrt 2)
 \<and> (\<exists>blk out. ResBlock_init 2 2 64 (LeakyReLU 0.2) False True = Inr blk
     \<and> ResBlock_forward (K_block '''') blk (ramp [1, 2, 4, 4]) = Inr out
     \<and> shape out = [1, 2, 4, 4] \<and> elem out [0, 1, 1, 0] = (11 + 2) / sqrt 2)"
proof -
  have x: "shape (ramp [1, 2, 4, 4]) = [1, 2, 4, 4]" by (simp add: ramp_def)
  have pos: "(1::int) \<le> 2" "(1::int) \<le> 3" "(1::int) \<le> 1" by simp_all
  have first: "\<exists>blk out. ResBlock_init 2 3 64 (LeakyReLU 0.2) True True = Inr blk
     \<and> ResBlock_forward (K_block '''') blk (ramp [1, 2, 4, 4]) = Inr out
     \<and> shape out = [1, 3, 2, 2] \<and> elem out [0, 1, 1, 0] = (11 + 3) / sqrt 2"
  proof -
    obtain blk where blk: "ResBlock_init 2 3 64 (LeakyReLU 0.2) True True = Inr blk"
      by (simp add: ResBlock_init_eq)
    obtain r where
      r: "spec_residual_path (K_block '''') 2 3 True True (ramp [1, 2, 4, 4]) = Inr r"
      and sr: "shape r = [1, 3, 2, 2]" and er: "elem r [0, 1, 1, 0] = 11"
      by (simp add: spec_residual_path_def instance_norm_forward_def instance_norm_check_def
          conv2d_forward_def conv2d_out_def ramp_def channel_sum_def upto.simps)
    obtain s where s: "spec_shortcut_path (K_block '''') 2 3 True (ramp [1, 2, 4, 4]) = Inr s"
      and es: "elem s [0, 1, 1, 0] = 3"
      by (simp add: spec_shortcut_path_def conv2d_forward_def conv2d_out_def ramp_def
          channel_sum_def upto.simps)
    from ResBlock_forward_formula [OF blk pos(1,2) x pos(3), of "K_block ''''"]
    obtain out where out: "ResBlock_forward (K_block '''') blk (ramp [1, 2, 4, 4]) = Inr out"
        "shape out = shape r"
      and el: "\<forall>idx. valid_index (shape out) idx \<longrightarrow>
                              elem out idx = (elem r idx + elem s idx) / sqrt 2"
      unfolding r s by auto
    have "valid_index (shape out) [0, 1, 1, 0]" by (simp add: out sr valid_index_def)
    with el have "elem out [0, 1, 1, 0] = (elem r [0, 1, 1, 0] + elem s [0, 1, 1, 0]) / sqrt 2"
      by blast
    with blk out sr er es show ?thesis by auto
  qed
  have second: "\<exists>blk out. ResBlock_init 2 2 64 (LeakyReLU 0.2) False True = Inr blk
     \<and> ResBlock_forward (K_block '''') blk (ramp [1, 2, 4, 4]) = Inr out
     \<and> shape out = [1, 2, 4, 4] \<and> elem out [0, 1, 1, 0] = (11 + 2) / sqrt 2"
  proof -
    obtain blk where blk: "ResBlock_init 2 2 64 (LeakyReLU 0.2) False True = Inr blk"
      by (simp add: ResBlock_init_eq)
    obtain r where
      r: "spec_residual_path (K_block '''') 2 2 False True (ramp [1, 2, 4, 4]) = Inr r"
      and sr: "shape r = [1, 2, 4, 4]" and er: "elem r [0, 1, 1, 0] = 11"
      by (simp add: spec_residual_path_def instance_norm_forward_def instance_norm_check_def
          conv2d_forward_def conv2d_out_def ramp_def channel_sum_def upto.simps)
    obtain s where s: "spec_shortcut_path (K_block '''') 2 2 False (ramp [1, 2, 4, 4]) = Inr s"
      and es: "elem s [0, 1, 1, 0] = 2"
      by (simp add: spec_shortcut_path_def ramp_def)
    from ResBlock_forward_formula [OF blk pos(1,1) x pos(3), of "K_block ''''"]
    obtain out where out: "ResBlock_forward (K_block '''') blk (ramp [1, 2, 4, 4]) = Inr out"
        "shape out = shape r"
      and el: "\<forall>idx. valid_index (shape out) idx \<longrightarrow>
                              elem out idx = (elem r idx + elem s idx) / sqrt 2"
      unfolding r s by auto
    have "valid_index (shape out) [0, 1, 1, 0]" by (simp add: out sr valid_index_def)
    with el have "elem out [0, 1, 1, 0] = (elem r [0, 1, 1, 0] + elem s [0, 1, 1, 0]) / sqrt 2"
      by blast
    with blk out sr er es show ?thesis by auto
  qed
  from first second show ?thesis by (rule conjI)
qed

section \<open>The formula of adaptive instance normalisation\<close>

text \<open>
  Claim C9. For a feature map \<open>x\<close> with \<open>num_features\<close> channels and a style vector \<open>s\<close>
  of last dimension \<open>style_dim\<close> (one row per example of the batch),
  \<open>AdaptiveInstanceNorm.forward(x, s)\<close> is \<open>(1 + gamma) * normalized(x) + beta\<close>:
  \<open>normalized(x)\<close> is the instance normalisation of \<open>x\<close> without learned affine
  parameters, and \<open>gamma\<close> and \<open>beta\<close> are the first and the second half, along the
  channel axis, of the linear projection \<open>fc(s)\<close>, the same for every spatial position.
  When the normalisation raises, so does the call.
\<close>

theorem AdaptiveInstanceNorm_forward_formula:
  assumes "AdaptiveInstanceNorm_init style_dim nf = Inr a"
    and "shape x = [B, nf, H, W]" and "shape s = [B, style_dim]" and "0 \<le> B"
  shows "ain_norm a = \<lparr>num_features = nf, affine = False\<rparr>
     \<and> (\<exists>h. linear_forward K (ain_fc a) s = Inr h \<and> shape h = [B, nf * 2]
         \<and> (case instance_norm_forward K (ain_norm a) x of
              Inl e \<Rightarrow> AdaptiveInstanceNorm_forward K a x s = Inl e
            | Inr n \<Rightarrow>
                (\<exists>out. AdaptiveInstanceNorm_forward K a x s = Inr out
                  \<and> shape out = [B, nf, H, W]
                  \<and> (\<forall>b c i j. 0 \<le> b \<and> b < B \<and> 0 \<le> c \<and> c < nf
                                \<and> 0 \<le> i \<and> i < H \<and> 0 \<le> j \<and> j < W \<longrightarrow>
                        elem out [b, c, i, j]
                          = (1 + elem h [b, c]) * elem n [b, c, i, j] + elem h [b, nf + c]))))"
proof -
  from assms(1) have a: "0 \<le> style_dim" "0 \<le> nf"
    "ain_norm a = \<lparr>num_features = nf, affine = False\<rparr>"
    "ain_fc a = \<lparr>in_features = style_dim, out_features = nf * 2\<rparr>"
    by (simp_all add: AdaptiveInstanceNorm_init_eq)
  let ?h = "\<lparr>shape = [B, nf * 2], elem = k_linear K (ain_fc a) s\<rparr>"
  have h: "linear_forward K (ain_fc a) s = Inr ?h"
    using assms(3) by (simp add: linear_forward_def linear_shape_def a(4))
  from AdaptiveInstanceNorm_forward_steps [OF assms(1,3,4), of K] obtain h1 where
    h1: "shape h1 = [B, nf * 2, 1, 1]
    \<and> (\<forall>b c. 0 \<le> c \<longrightarrow> c < nf * 2 \<longrightarrow>
          elem h1 [b, c, 0, 0] = k_linear K (ain_fc a) s [b, c])
    \<and> (\<forall>x. AdaptiveInstanceNorm_forward K a x s =
          rbind (instance_norm_forward K (ain_norm a) x) (\<lambda>n.
          rbind (tensor_mul (scalar_add 1 (narrow h1 1 0 nf)) n) (\<lambda>m.
          tensor_add m (narrow h1 1 nf nf))))" ..
  from h1 have sh1: "shape h1 = [B, nf * 2, 1, 1]" by (rule conjunct1)
  from h1 have el: "elem h1 [b, c, 0, 0] = k_linear K (ain_fc a) s [b, c]"
    if "0 \<le> c" "c < nf * 2" for b c
    using that by simp
  from h1 have fw: "AdaptiveInstanceNorm_forward K a x s =
       rbind (instance_norm_forward K (ain_norm a) x) (\<lambda>n.
       rbind (tensor_mul (scalar_add 1 (narrow h1 1 0 nf)) n) (\<lambda>m.
       tensor_add m (narrow h1 1 nf nf)))" for x
    by simp
  have "case instance_norm_forward K (ain_norm a) x of
              Inl e \<Rightarrow> AdaptiveInstanceNorm_forward K a x s = Inl e
            | Inr n \<Rightarrow>
                (\<exists>out. AdaptiveInstanceNorm_forward K a x s = Inr out
                  \<and> shape out = [B, nf, H, W]
                  \<and> (\<forall>b c i j. 0 \<le> b \<and> b < B \<and> 0 \<le> c \<and> c < nf
                                \<and> 0 \<le> i \<and> i < H \<and> 0 \<le> j \<and> j < W \<longrightarrow>
                        elem out [b, c, i, j]
                          = (1 + elem ?h [b, c]) * elem n [b, c, i, j] + elem ?h [b, nf + c]))"
  proof (cases "instance_norm_forward K (ain_norm a) x")
    case (Inl e)
    then show ?thesis by (simp add: fw)
  next
    case (Inr n)
    then have n: "shape n = [B, nf, H, W]"
      using assms(2)
      by (auto simp: instance_norm_forward_def instance_norm_check_def a(3) split: if_splits)
    let ?m = "\<lparr>shape = [B, nf, H, W],
        elem = (\<lambda>idx. elem (scalar_add 1 (narrow h1 1 0 nf)) (broadcast_index [B, nf, 1, 1] idx)
                       * elem n (broadcast_index [B, nf, H, W] idx))\<rparr>"
    have m: "tensor_mul (scalar_add 1 (narrow h1 1 0 nf)) n = Inr ?m"
      by (simp add: tensor_mul_def tensor_binop_def sh1 n broadcast_1_full)
    let ?out = "\<lparr>shape = [B, nf, H, W],
        elem = (\<lambda>idx. elem ?m (broadcast_index [B, nf, H, W] idx)
                       + elem (narrow h1 1 nf nf) (broadcast_index [B, nf, 1, 1] idx))\<rparr>"
    have out: "tensor_add ?m (narrow h1 1 nf nf) = Inr ?out"
      by (simp add: tensor_add_def tensor_binop_def sh1 broadcast_full_1)
    have fwd: "AdaptiveInstanceNorm_forward K a x s = Inr ?out"
      by (simp only: fw Inr rbind_Inr m out)
    have "elem ?out [b, c, i, j]
        = (1 + elem ?h [b, c]) * elem n [b, c, i, j] + elem ?h [b, nf + c]"
      if "0 \<le> b \<and> b < B \<and> 0 \<le> c \<and> c < nf \<and> 0 \<le> i \<and> i < H \<and> 0 \<le> j \<and> j < W"
      for b c i j
    proof -
      from that have r: "0 \<le> b" "b < B" "0 \<le> c" "c < nf" "0 \<le> i" "i < H" "0 \<le> j" "j < W"
        by simp_all
      have c2: "c < nf * 2" "0 \<le> c + nf" "c + nf < nf * 2" using r by simp_all
      show ?thesis
        by (simp add: broadcast_index_full [OF r] broadcast_index_1 [OF r(1-4)]
            el [OF r(3) c2(1)] el [OF c2(2,3)] add.commute)
    qed
    then have "\<forall>b c i j. 0 \<le> b \<and> b < B \<and> 0 \<le> c \<and> c < nf
                                \<and> 0 \<le> i \<and> i < H \<and> 0 \<le> j \<and> j < W \<longrightarrow>
                        elem ?out [b, c, i, j]
                          = (1 + elem ?h [b, c]) * elem n [b, c, i, j] + elem ?h [b, nf + c]"
      by blast
    with fwd have "\<exists>out. AdaptiveInstanceNorm_forward K a x s = Inr out
                  \<and> shape out = [B, nf, H, W]
                  \<and> (\<forall>b c i j. 0 \<le> b \<and> b < B \<and> 0 \<le> c \<and> c < nf
                                \<and> 0 \<le> i \<and> i < H \<and> 0 \<le> j \<and> j < W \<longrightarrow>
                        elem out [b, c, i, j]
                          = (1 + elem ?h [b, c]) * elem n [b, c, i, j] + elem ?h [b, nf + c])"
      by (intro exI [of _ ?out]) simp
    then show ?thesis by (simp only: Inr sum.case)
  qed
  moreover have "shape ?h = [B, nf * 2]" by simp
  ultimately show ?thesis using a(3) h by blast
qed



theorem AdaptiveInstanceNorm_forward_formula_witness:
  "\<exists>a out. AdaptiveInstanceNorm_init 4 3 = Inr a
     \<and> AdaptiveInstanceNorm_forward K1 a (zeros [2, 3, 5, 5]) (zeros [2, 4]) = Inr out
     \<and> shape out = [2, 3, 5, 5] \<and> elem out [1, 2, 3, 4] = 2"
proof -
  obtain a where a: "AdaptiveInstanceNorm_init 4 3 = Inr a"
    by (simp add: AdaptiveInstanceNorm_init_eq)
  then have an: "ain_norm a = \<lparr>num_features = 3, affine = False\<rparr>"
    by (simp add: AdaptiveInstanceNorm_init_eq)
  have x: "shape (zeros [2, 3, 5, 5]) = [2, 3, 5, 5]" and s: "shape (zeros [2, 4]) = [2, 4]"
    by (simp_all add: zeros_def)
  have n: "instance_norm_forward K1 (ain_norm a) (zeros [2, 3, 5, 5])
      = Inr \<lparr>shape = [2, 3, 5, 5], elem = k_instance_norm K1 (ain_norm a) (zeros [2, 3, 5, 5])\<rparr>"
    by (simp add: instance_norm_forward_def instance_norm_check_def zeros_def an)
  from AdaptiveInstanceNorm_forward_formula [OF a x s, of K1]
  obtain h out where h: "linear_forward K1 (ain_fc a) (zeros [2, 4]) = Inr h"
    and out: "AdaptiveInstanceNorm_forward K1 a (zeros [2, 3, 5, 5]) (zeros [2, 4]) = Inr out"
      "shape out = [2, 3, 5, 5]"
    and el: "\<forall>b c i j. 0 \<le> b \<and> b < 2 \<and> 0 \<le> c \<and> c < 3 \<and> 0 \<le> i \<and> i < 5 \<and> 0 \<le> j \<and> j < 5 \<longrightarrow>
        elem out [b, c, i, j]
          = (1 + elem h [b, c])
            * elem \<lparr>shape = [2, 3, 5, 5], elem = k_instance_norm K1 (ain_norm a) (zeros [2, 3, 5, 5])\<rparr> [b, c, i, j]
            + elem h [b, 3 + c]"
    unfolding n by auto
  from h have hh: "elem h = k_linear K1 (ain_fc a) (zeros [2, 4])"
    by (auto simp: linear_forward_def linear_shape_def zeros_def split: if_splits)
  from el have "elem out [1, 2, 3, 4]
          = (1 + elem h [1, 2])
            * elem \<lparr>shape = [2, 3, 5, 5], elem = k_instance_norm K1 (ain_norm a) (zeros [2, 3, 5, 5])\<rparr> [1, 2, 3, 4]
            + elem h [1, 3 + 2]"
    by simp
  then have "elem out [1, 2, 3, 4] = 2" by (simp add: hh zeros_def)
  with a out show ?thesis by blast
qed

section \<open>Construction needs a downsampling stage\<close>

text \<open>
  Claim C10. \<open>Generator.__init__\<close> is well defined only when
  \<open>int(log2(img_size)) - 4 \<ge> 1\<close>, that is \<open>img_size \<ge> 32\<close>: for a smaller positive
  \<open>img_size\<close> the downsampling loop runs zero times, the bottleneck blocks read the local
  \<open>dim_out\<close> before any assignment, and construction fails. In the same way
  \<open>Discriminator.__init__\<close> and \<open>StyleEncoder.__init__\<close> need
  \<open>int(log2(img_size)) - 2 \<ge> 1\<close>, that is \<open>img_size \<ge> 8\<close>.
\<close>

theorem init_requires_downsampling_stage:
  "(Generator_init img_size style_dim max_conv_dim = Inr g \<longrightarrow>
      1 \<le> ilog2 img_size - 4 \<and> 32 \<le> img_size)
 \<and> (0 < img_size \<and> img_size < 32 \<longrightarrow>
      ilog2 img_size - 4 < 1
    \<and> Generator_init img_size style_dim max_conv_dim = Inl (UnboundLocalError ''dim_out''))
 \<and> (Discriminator_init img_size num_domains max_conv_dim = Inr d \<longrightarrow>
      1 \<le> ilog2 img_size - 2 \<and> 8 \<le> img_size)
 \<and> (StyleEncoder_init img_size style_dim num_domains max_conv_dim = Inr e \<longrightarrow>
      1 \<le> ilog2 img_size - 2 \<and> 8 \<le> img_size)
 \<and> (0 < img_size \<and> img_size < 8 \<longrightarrow>
      ilog2 img_size - 2 < 1
    \<and> Discriminator_init img_size num_domains max_conv_dim = Inl (UnboundLocalError ''dim_out'')
    \<and> StyleEncoder_init img_size style_dim num_domains max_conv_dim
        = Inl (UnboundLocalError ''dim_out''))"
proof (intro conjI impI)
  assume "Generator_init img_size style_dim max_conv_dim = Inr g"
  then show "1 \<le> ilog2 img_size - 4" "32 \<le> img_size" by (rule Generator_large)+
next
  assume "0 < img_size \<and> img_size < 32"
  then show "ilog2 img_size - 4 < 1"
    "Generator_init img_size style_dim max_conv_dim = Inl (UnboundLocalError ''dim_out'')"
    by (simp_all add: Generator_small)
next
  assume "Discriminator_init img_size num_domains max_conv_dim = Inr d"
  then show "1 \<le> ilog2 img_size - 2" "8 \<le> img_size"
    by (rule pyramid_large [OF disjI1])+
next
  assume "StyleEncoder_init img_size style_dim num_domains max_conv_dim = Inr e"
  then show "1 \<le> ilog2 img_size - 2" "8 \<le> img_size"
    by (rule pyramid_large [OF disjI2])+
next
  assume "0 < img_size \<and> img_size < 8"
  then show "ilog2 img_size - 2 < 1"
    "Discriminator_init img_size num_domains max_conv_dim = Inl (UnboundLocalError ''dim_out'')"
    "StyleEncoder_init img_size style_dim num_domains max_conv_dim
        = Inl (UnboundLocalError ''dim_out'')"
    by (simp_all add: pyramid_small)
qed

theorem init_requires_downsampling_stage_witness:
  "(\<exists>g. Generator_init 256 64 512 = Inr g) \<and> 1 \<le> ilog2 256 - 4
 \<and> (\<exists>d. Discriminator_init 256 2 512 = Inr d)
 \<and> (\<exists>e. StyleEncoder_init 256 64 2 512 = Inr e) \<and> 1 \<le> ilog2 256 - 2
 \<and> Generator_init 16 64 512 = Inl (UnboundLocalError ''dim_out'')
 \<and> Discriminator_init 4 2 512 = Inl (UnboundLocalError ''dim_out'')
 \<and> StyleEncoder_init 4 64 2 512 = Inl (UnboundLocalError ''dim_out'')"
proof -
  obtain g d e where g: "Generator_init 256 64 512 = Inr g"
    and d: "Discriminator_init 256 2 512 = Inr d"
    and e: "StyleEncoder_init 256 64 2 512 = Inr e"
    using Generator_init_ok [of 256 64 512] Discriminator_init_ok [of 256 2 512]
      StyleEncoder_init_ok [of 256 64 512 2]
    by auto
  from init_requires_downsampling_stage [of 256 64 512 g 2 d e]
    init_requires_downsampling_stage [of 16 64 512]
    init_requires_downsampling_stage [of 4 64 512 _ 2]
    g d e
  show ?thesis by simp
qed

end
